theory Spec2Isabelle
  imports Main "HOL-Library.Sublist" "HOL-Library.Word"
begin

section \<open>Strings\<close>

text \<open>
  The plugin works on JavaScript strings. A document text, a path and a message are
  modelled as \<^typ>\<open>string\<close>: a list of code units, of which the model covers those
  below 256. Every string operation the plugin uses (prefix test, substring search,
  the three regular expressions) compares code units for equality with ASCII
  characters, so it reads the same on both.
\<close>

definition NL :: char where
  "NL = CHR 0x0A"

definition CR :: char where
  "CR = CHR 0x0D"

definition DQ :: char where
  "DQ = CHR 0x22"

text \<open>
  \<open>find_sub pat s\<close> splits \<open>s\<close> at the first occurrence of \<open>pat\<close>, scanning from
  the left: the text before the occurrence and the text after it. It is the search of
  \<open>String.prototype.indexOf\<close>, and of a lazy \<open>[\s\S]*?\<close> followed by a literal.
\<close>

fun find_sub :: "string \<Rightarrow> string \<Rightarrow> (string \<times> string) option" where
  "find_sub pat [] = (if pat = [] then Some ([], []) else None)"
| "find_sub pat (c # cs) =
     (if prefix pat (c # cs) then Some ([], drop (length pat) (c # cs))
      else (case find_sub pat cs of
              None \<Rightarrow> None
            | Some (b, a) \<Rightarrow> Some (c # b, a)))"

text \<open>\<open>String.prototype.includes\<close>: substring presence.\<close>

definition includes_str :: "string \<Rightarrow> string \<Rightarrow> bool" where
  "includes_str s pat = (find_sub pat s \<noteq> None)"

section \<open>FlagDetector\<close>

text \<open>
  \<open>content.match(/^---\n([\s\S]*?)\n---/)\<close>. The expression has no \<open>m\<close> flag, so
  \<open>^\<close> is the start of the text; \<open>[\s\S]\<close> is any code unit and \<open>*?\<close> is lazy, so the
  group ends at the first \<open>\n---\<close> after the opening \<open>---\n\<close>. The result is the
  group and the text that follows the match, or \<open>None\<close> for JavaScript's \<open>null\<close>.
\<close>

definition fm_open :: string where
  "fm_open = ''---'' @ [NL]"

definition fm_close :: string where
  "fm_close = NL # ''---''"

definition frontmatterMatch :: "string \<Rightarrow> (string \<times> string) option" where
  "frontmatterMatch content =
     (if prefix fm_open content then find_sub fm_close (drop (length fm_open) content)
      else None)"

text \<open>The body of \<open>shouldPublishFile\<close> after the document has been read.\<close>

definition shouldPublish :: "string \<Rightarrow> bool" where
  "shouldPublish content =
     (case frontmatterMatch content of
        None \<Rightarrow> False
      | Some (frontmatter, rest) \<Rightarrow>
          includes_str frontmatter ''publish: true'' \<or> includes_str frontmatter ''publish:true'')"

section \<open>Flag mutation\<close>

text \<open>
  \<open>GetSubstitution\<close> of ECMAScript, which \<open>String.prototype.replace\<close> applies to a
  replacement string: \<open>$$\<close> is a dollar sign, \<open>$&\<close> the matched text, \<open>$`\<close> the text
  before the match, \<open>$'\<close> the text after it, \<open>$n\<close> and \<open>$nn\<close> the capture groups;
  a two-digit index beyond the number of groups is read as a one-digit index followed
  by a digit, an index that names no group stays as written, and so does a dollar sign
  followed by anything else (there are no named groups here).
\<close>

definition is_digit :: "char \<Rightarrow> bool" where
  "is_digit c = (c \<in> set ''0123456789'')"

definition digit_val :: "char \<Rightarrow> nat" where
  "digit_val c = of_char c - 48"

fun GetSubstitution :: "string \<Rightarrow> string \<Rightarrow> string \<Rightarrow> string list \<Rightarrow> string \<Rightarrow> string" where
  "GetSubstitution matched preceding following captures [] = []"
| "GetSubstitution matched preceding following captures [c] = [c]"
| "GetSubstitution matched preceding following captures (c # d # t) =
     (if c \<noteq> CHR ''$'' then c # GetSubstitution matched preceding following captures (d # t)
      else if d = CHR ''$'' then CHR ''$'' # GetSubstitution matched preceding following captures t
      else if d = CHR 0x60 then preceding @ GetSubstitution matched preceding following captures t
      else if d = CHR ''&'' then matched @ GetSubstitution matched preceding following captures t
      else if d = CHR 0x27 then following @ GetSubstitution matched preceding following captures t
      else if is_digit d then
        (case t of
           [] \<Rightarrow>
             (if 1 \<le> digit_val d \<and> digit_val d \<le> length captures
              then captures ! (digit_val d - 1)
              else [c, d])
         | e # u \<Rightarrow>
             (if is_digit e \<and> 10 * digit_val d + digit_val e \<le> length captures
              then (if 1 \<le> 10 * digit_val d + digit_val e
                    then captures ! (10 * digit_val d + digit_val e - 1)
                    else [c, d, e])
                   @ GetSubstitution matched preceding following captures u
              else (if 1 \<le> digit_val d \<and> digit_val d \<le> length captures
                    then captures ! (digit_val d - 1)
                    else [c, d])
                   @ GetSubstitution matched preceding following captures (e # u)))
      else c # GetSubstitution matched preceding following captures (d # t))"

text \<open>
  \<open>content.replace(/^---\n([\s\S]*?)\n---/, replacement)\<close>: the expression is not
  global, so the one match (the same as \<open>frontmatterMatch\<close> finds, at position 0) is
  replaced by the expanded replacement string; a text with no match is returned as it is.
\<close>

definition replace_frontmatter :: "string \<Rightarrow> string \<Rightarrow> string" where
  "replace_frontmatter content replacement =
     (case frontmatterMatch content of
        None \<Rightarrow> content
      | Some (frontmatter, rest) \<Rightarrow>
          GetSubstitution (fm_open @ frontmatter @ fm_close) [] rest [frontmatter] replacement
          @ rest)"

text \<open>
  \<open>str.replace(pat, replacement)\<close> with a string pattern: the first occurrence only,
  no capture groups.
\<close>

definition replace_first :: "string \<Rightarrow> string \<Rightarrow> string \<Rightarrow> string" where
  "replace_first str pat replacement =
     (case find_sub pat str of
        None \<Rightarrow> str
      | Some (preceding, following) \<Rightarrow>
          preceding @ GetSubstitution pat preceding following [] replacement @ following)"

text \<open>The text \<open>addPublishFlag\<close> hands to \<open>vault.modify\<close>.\<close>

definition addPublishFlag_text :: "string \<Rightarrow> string" where
  "addPublishFlag_text content =
     (case frontmatterMatch content of
        Some (frontmatter, rest) \<Rightarrow>
          (let newFrontmatter = frontmatter @ NL # ''publish: true''
           in replace_frontmatter content (fm_open @ newFrontmatter @ fm_close))
      | None \<Rightarrow> fm_open @ ''publish: true'' @ fm_close @ [NL, NL] @ content)"

section \<open>AssetResolver: extraction\<close>

text \<open>
  The image expression \<open>/!\[\[([^\]]+)\]\]|!\[.*?\]\(([^)]+)\)/g\<close>, one function for
  each piece. Each takes the text at the position where its piece has to start and
  returns the captured name with the text after the match.

  \<open>match_embed\<close> is the first alternative, \<open>![[name]]\<close>: the greedy class takes every
  code unit up to the next \<open>]\<close>, and giving some back cannot help, since \<open>]]\<close> would
  then have to start at a code unit that is not \<open>]\<close>.
\<close>

definition match_embed :: "string \<Rightarrow> (string \<times> string) option" where
  "match_embed s =
     (if prefix ''![['' s
      then (let t = drop 3 s;
                r = takeWhile (\<lambda>c. c \<noteq> CHR '']'') t;
                u = dropWhile (\<lambda>c. c \<noteq> CHR '']'') t
            in if r \<noteq> [] \<and> prefix '']]'' u then Some (r, drop 2 u) else None)
      else None)"

text \<open>\<open>\]\(([^)]+)\)\<close>: the end of the second alternative, from its \<open>](\<close> on.\<close>

definition match_target :: "string \<Rightarrow> (string \<times> string) option" where
  "match_target s =
     (if prefix ''](''  s
      then (let t = drop 2 s;
                r = takeWhile (\<lambda>c. c \<noteq> CHR '')'') t;
                u = dropWhile (\<lambda>c. c \<noteq> CHR '')'') t
            in if r \<noteq> [] \<and> u \<noteq> [] then Some (r, tl u) else None)
      else None)"

text \<open>
  The lazy \<open>.*?\<close> of the second alternative: the end is tried here first, and only when
  it fails is one more code unit skipped, which must not be a line terminator (line feed
  or carriage return, of the code units the model covers).
\<close>

definition is_line_terminator :: "char \<Rightarrow> bool" where
  "is_line_terminator c = (c = NL \<or> c = CR)"

fun match_alt :: "string \<Rightarrow> (string \<times> string) option" where
  "match_alt [] = None"
| "match_alt (c # cs) =
     (case match_target (c # cs) of
        Some m \<Rightarrow> Some m
      | None \<Rightarrow> if is_line_terminator c then None else match_alt cs)"

definition match_image :: "string \<Rightarrow> (string \<times> string) option" where
  "match_image s = (if prefix ''!['' s then match_alt (drop 2 s) else None)"

text \<open>The whole expression at one position: \<open>match[1] || match[2]\<close> and the rest.\<close>

definition match_here :: "string \<Rightarrow> (string \<times> string) option" where
  "match_here s = (case match_embed s of Some m \<Rightarrow> Some m | None \<Rightarrow> match_image s)"

lemma match_embed_shorter:
  "match_embed s = Some (n, rest) \<Longrightarrow> length rest < length s"
proof -
  assume m: "match_embed s = Some (n, rest)"
  let ?u = "dropWhile (\<lambda>c. c \<noteq> CHR '']'') (drop 3 s)"
  from m have p: "prefix ''![['' s" and r: "rest = drop 2 ?u"
    by (auto simp: match_embed_def Let_def split: if_splits)
  from p have "3 \<le> length s" by (auto simp: prefix_def)
  moreover have "length ?u \<le> length (drop 3 s)" by (rule length_dropWhile_le)
  ultimately show ?thesis using r by simp
qed

lemma match_target_shorter:
  "match_target s = Some (n, rest) \<Longrightarrow> length rest < length s"
proof -
  assume m: "match_target s = Some (n, rest)"
  let ?u = "dropWhile (\<lambda>c. c \<noteq> CHR '')'') (drop 2 s)"
  from m have p: "prefix ''](''  s" and r: "rest = tl ?u"
    by (auto simp: match_target_def Let_def split: if_splits)
  from p have "2 \<le> length s" by (auto simp: prefix_def)
  moreover have "length ?u \<le> length (drop 2 s)" by (rule length_dropWhile_le)
  ultimately show ?thesis using r by simp
qed

lemma match_alt_shorter:
  "match_alt s = Some (n, rest) \<Longrightarrow> length rest < length s"
proof (induction s)
  case Nil
  then show ?case by simp
next
  case (Cons c cs)
  show ?case
  proof (cases "match_target (c # cs)")
    case (Some m)
    with Cons.prems have "match_target (c # cs) = Some (n, rest)" by simp
    then show ?thesis by (rule match_target_shorter)
  next
    case None
    with Cons.prems have "match_alt cs = Some (n, rest)" by (simp split: if_splits)
    with Cons.IH show ?thesis by simp
  qed
qed

lemma match_here_shorter:
  "match_here s = Some (n, rest) \<Longrightarrow> length rest < length s"
proof (cases "match_embed s")
  case (Some m)
  assume "match_here s = Some (n, rest)"
  with Some have "match_embed s = Some (n, rest)" by (simp add: match_here_def)
  then show ?thesis by (rule match_embed_shorter)
next
  case None
  assume "match_here s = Some (n, rest)"
  with None have p: "prefix ''!['' s" and a: "match_alt (drop 2 s) = Some (n, rest)"
    by (auto simp: match_here_def match_image_def split: if_splits)
  from a have "length rest < length (drop 2 s)" by (rule match_alt_shorter)
  then show ?thesis by simp
qed

text \<open>
  The loop \<open>while ((match = imageRegex.exec(content)) !== null)\<close>: the expression is
  global, so each search starts where the last match ended, and moves on by one code
  unit while nothing matches. No match is empty, so \<open>imageName\<close> is never empty and
  the \<open>continue\<close> of the source is never taken. The result is the names in the order
  of the matches, duplicates kept.
\<close>

function imageNames :: "string \<Rightarrow> string list" where
  "imageNames [] = []"
| "imageNames (c # cs) =
     (case match_here (c # cs) of
        Some (imageName, rest) \<Rightarrow> imageName # imageNames rest
      | None \<Rightarrow> imageNames cs)"
  by pat_completeness auto
termination
  by (relation "measure length") (auto dest: match_here_shorter)

section \<open>Settings, corpus and host\<close>

record GeneralPublishSettings =
  gitRepoPath :: string
  publishFolder :: string
  assetsFolder :: string
  commitMessage :: string
  autoCommit :: bool

definition DEFAULT_SETTINGS :: GeneralPublishSettings where
  "DEFAULT_SETTINGS =
     \<lparr>gitRepoPath = [], publishFolder = ''content'', assetsFolder = ''assets'',
      commitMessage = ''Update published notes - {timestamp}'', autoCommit = True\<rparr>"

text \<open>
  Obsidian's \<open>TFile\<close>, of which the plugin reads \<open>path\<close> (the path within the corpus)
  and \<open>name\<close> (the filename). \<open>getAbstractFileByPath\<close> answers a file, a folder or
  \<open>null\<close>; of a folder the plugin only sees that it is not a file.
\<close>

record TFile =
  path :: string
  name :: string

datatype TAbstractFile = AFile TFile | AFolder string

type_synonym bytes = "8 word list"

text \<open>
  The corpus as the plugin reads it through \<open>this.app\<close>: the enumerations, the lookup
  by path, the contents, and the active file of the workspace. Reading is taken to
  succeed. Only \<open>vault.modify\<close> changes the corpus.
\<close>

record vault =
  getMarkdownFiles :: "TFile list"
  getFiles :: "TFile list"
  getAbstractFileByPath :: "string \<Rightarrow> TAbstractFile option"
  read :: "TFile \<Rightarrow> string"
  readBinary :: "TFile \<Rightarrow> bytes"
  getActiveFile :: "TFile option"

definition modify :: "vault \<Rightarrow> TFile \<Rightarrow> string \<Rightarrow> vault" where
  "modify v file newContent = v\<lparr>read := (read v)(file := newContent)\<rparr>"

text \<open>What a file of the target tree holds: a text written as UTF-8, or a buffer.\<close>

datatype data = Utf8 string | Buffer bytes

text \<open>The notices the plugin shows, each constructor one message of the source.\<close>

datatype notice =
    PleaseConfigure
  | NoFilesFound
  | Publishing nat
  | SuccessfullyPublished nat
  | CopiedNoChanges nat
  | ErrorPublishingNotes string
  | NoActiveFile
  | AddedPublishFlag
  | SuccessfullyPublishedCurrent
  | ErrorPublishingNote string

text \<open>
  Every call that leaves the plugin, in the order the calls are made: directory
  creation, file writes, shell commands, notices and console output.
\<close>

datatype event =
    Mkdir string
  | WriteFile string data
  | Exec string
  | Notice notice
  | ConsoleError string string
  | ConsoleWarn string

text \<open>
  The state outside the plugin: the files and directories of the target file system,
  the tree recorded by the last \<open>git add . && git commit\<close> that succeeded, and the
  calls made so far.
\<close>

record world =
  files :: "string \<rightharpoonup> data"
  dirs :: "string set"
  committed :: "string \<rightharpoonup> data"
  trace :: "event list"

text \<open>
  What Node and the user contribute: \<open>path.isAbsolute\<close> and \<open>path.resolve\<close>; for
  each path whether \<open>fs.promises.mkdir\<close> and \<open>fs.promises.writeFile\<close> fail there, and
  with which message; the outcome of a shell command (an error message, or its standard
  output) given the working tree and the committed tree; the instant
  \<open>new Date().toISOString()\<close> reads; and the answer given in the confirmation dialog.
\<close>

record host =
  isAbsolute :: "string \<Rightarrow> bool"
  resolve :: "string \<Rightarrow> string \<Rightarrow> string"
  mkdir_error :: "string \<Rightarrow> string option"
  writeFile_error :: "string \<Rightarrow> string option"
  exec :: "string \<Rightarrow> (string \<rightharpoonup> data) \<Rightarrow> (string \<rightharpoonup> data) \<Rightarrow> string + string"
  toISOString :: string
  confirmAddPublishFlag :: "TFile \<Rightarrow> bool"

definition emit :: "event \<Rightarrow> world \<Rightarrow> world" where
  "emit e w = w\<lparr>trace := trace w @ [e]\<rparr>"

text \<open>
  \<open>fs.promises.mkdir(dir, { recursive: true })\<close> and \<open>fs.promises.writeFile\<close>. A
  rejected promise is \<open>Inl\<close> of the error's message, and leaves the file system as it was.
\<close>

definition mkdir :: "host \<Rightarrow> string \<Rightarrow> world \<Rightarrow> (string + unit) \<times> world" where
  "mkdir h dir w =
     (case mkdir_error h dir of
        Some e \<Rightarrow> (Inl e, emit (Mkdir dir) w)
      | None \<Rightarrow> (Inr (), emit (Mkdir dir) (w\<lparr>dirs := insert dir (dirs w)\<rparr>)))"

definition writeFile :: "host \<Rightarrow> string \<Rightarrow> data \<Rightarrow> world \<Rightarrow> (string + unit) \<times> world" where
  "writeFile h target d w =
     (case writeFile_error h target of
        Some e \<Rightarrow> (Inl e, emit (WriteFile target d) w)
      | None \<Rightarrow> (Inr (), emit (WriteFile target d) (w\<lparr>files := (files w)(target \<mapsto> d)\<rparr>)))"

section \<open>FlagDetector and selection on the corpus\<close>

definition shouldPublishFile :: "vault \<Rightarrow> TFile \<Rightarrow> bool" where
  "shouldPublishFile v file = shouldPublish (read v file)"

definition getPublishableFiles :: "vault \<Rightarrow> TFile list" where
  "getPublishableFiles v = filter (shouldPublishFile v) (getMarkdownFiles v)"

definition addPublishFlag :: "vault \<Rightarrow> TFile \<Rightarrow> vault" where
  "addPublishFlag v file = modify v file (addPublishFlag_text (read v file))"

section \<open>AssetResolver: resolution\<close>

text \<open>\<open>imageName.split("/").pop()\<close>: what follows the last slash, the whole name if none.\<close>

definition last_segment :: "string \<Rightarrow> string" where
  "last_segment imageName = rev (takeWhile (\<lambda>c. c \<noteq> CHR ''/'') (rev imageName))"

definition resolveImage :: "vault \<Rightarrow> string \<Rightarrow> TFile option" where
  "resolveImage v imageName =
     (case getAbstractFileByPath v imageName of
        Some (AFile directFile) \<Rightarrow> Some directFile
      | _ \<Rightarrow>
          find (\<lambda>file. name file = imageName
                      \<or> name file = last_segment imageName
                      \<or> path file = imageName)
               (getFiles v))"

section \<open>Mirror\<close>

definition processContent :: "string \<Rightarrow> TFile \<Rightarrow> string" where
  "processContent content file = content"

definition assetTarget :: "host \<Rightarrow> GeneralPublishSettings \<Rightarrow> TFile \<Rightarrow> string" where
  "assetTarget h s assetFile =
     resolve h (resolve h (gitRepoPath s) (assetsFolder s)) (name assetFile)"

definition documentTarget :: "host \<Rightarrow> GeneralPublishSettings \<Rightarrow> TFile \<Rightarrow> string" where
  "documentTarget h s file =
     resolve h (resolve h (gitRepoPath s) (publishFolder s)) (name file)"

definition copyAssetToRepo ::
  "host \<Rightarrow> GeneralPublishSettings \<Rightarrow> vault \<Rightarrow> TFile \<Rightarrow> world \<Rightarrow> (string + unit) \<times> world" where
  "copyAssetToRepo h s v assetFile w =
     (let buffer = readBinary v assetFile;
          targetDir = resolve h (gitRepoPath s) (assetsFolder s);
          targetPath = resolve h targetDir (name assetFile)
      in case mkdir h targetDir w of
           (Inl e, w1) \<Rightarrow> (Inl e, w1)
         | (Inr _, w1) \<Rightarrow> writeFile h targetPath (Buffer buffer) w1)"

text \<open>
  The body of the loop of \<open>copyReferencedAssets\<close> for one extracted name: a failed copy
  is caught and logged, an unresolved name is logged; neither is thrown.
\<close>

definition copyOneAsset ::
  "host \<Rightarrow> GeneralPublishSettings \<Rightarrow> vault \<Rightarrow> string \<Rightarrow> world \<Rightarrow> world" where
  "copyOneAsset h s v imageName w =
     (case resolveImage v imageName of
        Some imageFile \<Rightarrow>
          (case copyAssetToRepo h s v imageFile w of
             (Inl e, w1) \<Rightarrow> emit (ConsoleError (''Failed to copy asset '' @ imageName @ '':'') e) w1
           | (Inr _, w1) \<Rightarrow> w1)
      | None \<Rightarrow> emit (ConsoleWarn (''Asset not found: '' @ imageName)) w)"

definition copyReferencedAssets ::
  "host \<Rightarrow> GeneralPublishSettings \<Rightarrow> vault \<Rightarrow> string \<Rightarrow> TFile \<Rightarrow> world \<Rightarrow> world" where
  "copyReferencedAssets h s v content sourceFile w =
     fold (copyOneAsset h s v) (imageNames content) w"

definition copyFileToRepo ::
  "host \<Rightarrow> GeneralPublishSettings \<Rightarrow> vault \<Rightarrow> TFile \<Rightarrow> world \<Rightarrow> (string + unit) \<times> world" where
  "copyFileToRepo h s v file w =
     (let content = read v file;
          processedContent = processContent content file
      in if \<not> isAbsolute h (gitRepoPath s)
         then (Inl ''Git repository path must be an absolute path'', w)
         else
           (let targetDir = resolve h (gitRepoPath s) (publishFolder s);
                targetPath = resolve h targetDir (name file)
            in case mkdir h targetDir w of
                 (Inl e, w1) \<Rightarrow> (Inl e, w1)
               | (Inr _, w1) \<Rightarrow>
                   (case writeFile h targetPath (Utf8 processedContent) w1 of
                      (Inl e, w2) \<Rightarrow> (Inl e, w2)
                    | (Inr _, w2) \<Rightarrow> (Inr (), copyReferencedAssets h s v content file w2))))"

text \<open>
  \<open>for (const file of publishableFiles) await this.copyFileToRepo(file)\<close>: the first
  document whose copy throws ends the loop, and the error leaves it.
\<close>

fun copyFilesToRepo ::
  "host \<Rightarrow> GeneralPublishSettings \<Rightarrow> vault \<Rightarrow> TFile list \<Rightarrow> world \<Rightarrow> (string + unit) \<times> world" where
  "copyFilesToRepo h s v [] w = (Inr (), w)"
| "copyFilesToRepo h s v (file # rest) w =
     (case copyFileToRepo h s v file w of
        (Inl e, w1) \<Rightarrow> (Inl e, w1)
      | (Inr _, w1) \<Rightarrow> copyFilesToRepo h s v rest w1)"

section \<open>Committer\<close>

text \<open>
  \<open>String.prototype.trim\<close> removes white space and line terminators at both ends; of
  the code units the model covers these are tab, line feed, vertical tab, form feed,
  carriage return, space and the no-break space.
\<close>

definition is_whitespace :: "char \<Rightarrow> bool" where
  "is_whitespace c =
     (c \<in> {CHR 0x09, CHR 0x0A, CHR 0x0B, CHR 0x0C, CHR 0x0D, CHR 0x20, CHR 0xA0})"

definition trim :: "string \<Rightarrow> string" where
  "trim str = rev (dropWhile is_whitespace (rev (dropWhile is_whitespace str)))"

definition statusCommand :: "GeneralPublishSettings \<Rightarrow> string" where
  "statusCommand s = ''cd '' @ [DQ] @ gitRepoPath s @ [DQ] @ '' && git status --porcelain''"

definition gitCommands :: "GeneralPublishSettings \<Rightarrow> string \<Rightarrow> string" where
  "gitCommands s message =
     ''cd '' @ [DQ] @ gitRepoPath s @ [DQ] @ '' && '' @ ''git add .'' @ '' && ''
     @ ''git commit -m '' @ [DQ] @ message @ [DQ]"

text \<open>
  The \<open>catch\<close> of \<open>commitChanges\<close>: an error whose message says there was nothing to
  commit is answered with \<open>false\<close>, any other is thrown again.
\<close>

definition commit_catch :: "string \<Rightarrow> world \<Rightarrow> (string + bool) \<times> world" where
  "commit_catch message w =
     (if \<not> includes_str message ''nothing to commit''
         \<and> \<not> includes_str message ''working tree clean''
      then (Inl message, w)
      else (Inr False, w))"

text \<open>
  \<open>commitChanges\<close>: \<open>Inr True\<close> is a commit made, \<open>Inr False\<close> no changes, \<open>Inl\<close> the
  error thrown. A commit that succeeds records the working tree as committed.
\<close>

definition commitChanges ::
  "host \<Rightarrow> GeneralPublishSettings \<Rightarrow> world \<Rightarrow> (string + bool) \<times> world" where
  "commitChanges h s w =
     (let w1 = emit (Exec (statusCommand s)) w
      in case exec h (statusCommand s) (files w) (committed w) of
           Inl err \<Rightarrow> commit_catch err w1
         | Inr statusOutput \<Rightarrow>
             if trim statusOutput = [] then (Inr False, w1)
             else
               (let timestamp = toISOString h;
                    message = replace_first (commitMessage s) ''{timestamp}'' timestamp;
                    w2 = emit (Exec (gitCommands s message)) w1
                in case exec h (gitCommands s message) (files w) (committed w) of
                     Inl err \<Rightarrow> commit_catch err w2
                   | Inr _ \<Rightarrow> (Inr True, w2\<lparr>committed := files w2\<rparr>)))"

section \<open>PublishPipeline\<close>

text \<open>The \<open>catch\<close> of \<open>publishAllNotes\<close>: a notice and a console line, nothing thrown.\<close>

definition publish_catch :: "string \<Rightarrow> world \<Rightarrow> world" where
  "publish_catch message w =
     emit (ConsoleError ''Publish error:'' message)
       (emit (Notice (ErrorPublishingNotes message)) w)"

definition publishAllNotes ::
  "host \<Rightarrow> GeneralPublishSettings \<Rightarrow> vault \<Rightarrow> world \<Rightarrow> world" where
  "publishAllNotes h s v w =
     (if gitRepoPath s = [] then emit (Notice PleaseConfigure) w
      else
        (let publishableFiles = getPublishableFiles v
         in if length publishableFiles = 0 then emit (Notice NoFilesFound) w
            else
              (let w1 = emit (Notice (Publishing (length publishableFiles))) w
               in case copyFilesToRepo h s v publishableFiles w1 of
                    (Inl e, w2) \<Rightarrow> publish_catch e w2
                  | (Inr _, w2) \<Rightarrow>
                      (case (if autoCommit s then commitChanges h s w2 else (Inr False, w2)) of
                         (Inl e, w3) \<Rightarrow> publish_catch e w3
                       | (Inr commitResult, w3) \<Rightarrow>
                           if commitResult \<or> \<not> autoCommit s
                           then emit (Notice (SuccessfullyPublished (length publishableFiles))) w3
                           else emit (Notice (CopiedNoChanges (length publishableFiles))) w3))))"

definition current_catch :: "string \<Rightarrow> world \<Rightarrow> world" where
  "current_catch message w =
     emit (ConsoleError ''Publish error:'' message)
       (emit (Notice (ErrorPublishingNote message)) w)"

text \<open>
  \<open>publishCurrentNote\<close> returns the corpus as well, since the flag mutation changes it.
\<close>

definition publishCurrentNote ::
  "host \<Rightarrow> GeneralPublishSettings \<Rightarrow> vault \<Rightarrow> world \<Rightarrow> vault \<times> world" where
  "publishCurrentNote h s v w =
     (case getActiveFile v of
        None \<Rightarrow> (v, emit (Notice NoActiveFile) w)
      | Some activeFile \<Rightarrow>
          if gitRepoPath s = [] then (v, emit (Notice PleaseConfigure) w)
          else if \<not> shouldPublishFile v activeFile \<and> \<not> confirmAddPublishFlag h activeFile
          then (v, w)
          else
            (let v1 = (if shouldPublishFile v activeFile then v
                       else addPublishFlag v activeFile);
                 w1 = (if shouldPublishFile v activeFile then w
                       else emit (Notice AddedPublishFlag) w)
             in case copyFileToRepo h s v1 activeFile w1 of
                  (Inl e, w2) \<Rightarrow> (v1, current_catch e w2)
                | (Inr _, w2) \<Rightarrow>
                    (case (if autoCommit s then commitChanges h s w2 else (Inr False, w2)) of
                       (Inl e, w3) \<Rightarrow> (v1, current_catch e w3)
                     | (Inr commitResult, w3) \<Rightarrow>
                         (v1, if commitResult \<or> \<not> autoCommit s
                              then emit (Notice SuccessfullyPublishedCurrent) w3
                              else w3))))"

section \<open>The frontmatter block as the specification words it\<close>

text \<open>
  The specification describes the block by lines: the text starts with a line that is
  exactly three hyphens, and a later line that is exactly three hyphens closes it; the
  body is what lies between the two. \<open>spec_lines\<close> cuts a text at its newlines.
\<close>

fun spec_lines :: "string \<Rightarrow> string list" where
  "spec_lines [] = [[]]"
| "spec_lines (c # cs) =
     (if c = NL then [] # spec_lines cs
      else (case spec_lines cs of
              [] \<Rightarrow> [[c]]
            | l # ls \<Rightarrow> (c # l) # ls))"

fun spec_unlines :: "string list \<Rightarrow> string" where
  "spec_unlines [] = []"
| "spec_unlines [l] = l"
| "spec_unlines (l # ls) = l @ NL # spec_unlines ls"

definition spec_frontmatter :: "string \<Rightarrow> string option" where
  "spec_frontmatter text =
     (case spec_lines text of
        [] \<Rightarrow> None
      | l # ls \<Rightarrow>
          if l = ''---'' \<and> ''---'' \<in> set ls
          then Some (spec_unlines (takeWhile (\<lambda>x. x \<noteq> ''---'') ls))
          else None)"

definition spec_shouldPublish :: "string \<Rightarrow> bool" where
  "spec_shouldPublish text =
     (case spec_frontmatter text of
        None \<Rightarrow> False
      | Some body \<Rightarrow> includes_str body ''publish: true'' \<or> includes_str body ''publish:true'')"

section \<open>Worlds and the calls made\<close>

text \<open>The world in which nothing exists and nothing has happened.\<close>

definition empty_world :: world where
  "empty_world = \<lparr>files = Map.empty, dirs = {}, committed = Map.empty, trace = []\<rparr>"

text \<open>
  \<open>emitted w w'\<close> are the calls made on the way from \<open>w\<close> to \<open>w'\<close>. \<open>shift w d\<close> is
  the world \<open>w\<close> followed by what happened in \<open>d\<close>: the files of \<open>d\<close> written over
  those of \<open>w\<close>, its directories added, its calls appended.
\<close>

definition emitted :: "world \<Rightarrow> world \<Rightarrow> event list" where
  "emitted w w' = drop (length (trace w)) (trace w')"

definition shift :: "world \<Rightarrow> world \<Rightarrow> world" where
  "shift w d =
     \<lparr>files = files w ++ files d, dirs = dirs w \<union> dirs d, committed = committed w,
      trace = trace w @ trace d\<rparr>"

fun is_exec :: "event \<Rightarrow> bool" where
  "is_exec (Exec cmd) = True"
| "is_exec e = False"

fun is_mirror :: "event \<Rightarrow> bool" where
  "is_mirror (Mkdir dir) = True"
| "is_mirror (WriteFile target d) = True"
| "is_mirror e = False"

text \<open>The assets a text refers to that resolve, in the order of the references.\<close>

definition resolvedAssets :: "vault \<Rightarrow> string \<Rightarrow> TFile list" where
  "resolvedAssets v content = List.map_filter (resolveImage v) (imageNames content)"

text \<open>
  \<open>mirrored h s v fs e\<close>: the call \<open>e\<close> is one the mirroring of the documents \<open>fs\<close>
  may make. A write is either the text of one of the documents to that document's
  target, or the bytes of an asset one of the documents refers to, to that asset's
  target; shell commands and notices are not among them.
\<close>

fun mirrored :: "host \<Rightarrow> GeneralPublishSettings \<Rightarrow> vault \<Rightarrow> TFile list \<Rightarrow> event \<Rightarrow> bool" where
  "mirrored h s v fs (WriteFile target d) =
     ((\<exists>f \<in> set fs. target = documentTarget h s f \<and> d = Utf8 (read v f))
      \<or> (\<exists>f \<in> set fs. \<exists>a \<in> set (resolvedAssets v (read v f)).
            target = assetTarget h s a \<and> d = Buffer (readBinary v a)))"
| "mirrored h s v fs (Exec cmd) = False"
| "mirrored h s v fs (Notice n) = False"
| "mirrored h s v fs e = True"

section \<open>The corpus interface\<close>

text \<open>
  What Obsidian's interface promises of a corpus: \<open>getAbstractFileByPath\<close> answers a
  file exactly for the path of a file that \<open>getFiles\<close> enumerates, and no two
  enumerated files have the same path.
\<close>

definition consistent :: "vault \<Rightarrow> bool" where
  "consistent v \<longleftrightarrow>
     (\<forall>p f. getAbstractFileByPath v p = Some (AFile f)
              \<longleftrightarrow> f \<in> set (getFiles v) \<and> path f = p)
     \<and> distinct (map path (getFiles v))"

section \<open>A small corpus and host\<close>

text \<open>
  Concrete values on which the statements below are evaluated: two publishable notes
  (the first embeds \<open>pic.png\<close>, a name two assets carry), a draft with a frontmatter
  block and no flag, a note with no block, and a second publishable note named
  \<open>a.md\<close> in another folder.
\<close>

definition note_a :: TFile where "note_a = \<lparr>path = ''notes/a.md'', name = ''a.md''\<rparr>"
definition note_b :: TFile where "note_b = \<lparr>path = ''b.md'', name = ''b.md''\<rparr>"
definition note_a2 :: TFile where "note_a2 = \<lparr>path = ''other/a.md'', name = ''a.md''\<rparr>"
definition draft :: TFile where "draft = \<lparr>path = ''draft.md'', name = ''draft.md''\<rparr>"
definition plain :: TFile where "plain = \<lparr>path = ''plain.md'', name = ''plain.md''\<rparr>"
definition pic1 :: TFile where "pic1 = \<lparr>path = ''img/pic.png'', name = ''pic.png''\<rparr>"
definition pic2 :: TFile where "pic2 = \<lparr>path = ''old/pic.png'', name = ''pic.png''\<rparr>"

definition ex_read :: "TFile \<Rightarrow> string" where
  "ex_read f =
     (if path f = ''notes/a.md''
        then ''---'' @ [NL] @ ''publish: true'' @ [NL] @ ''---'' @ [NL] @ ''![[pic.png]]''
      else if path f = ''b.md''
        then ''---'' @ [NL] @ ''publish:true'' @ [NL] @ ''---'' @ [NL] @ ''hello''
      else if path f = ''other/a.md''
        then ''---'' @ [NL] @ ''publish: true'' @ [NL] @ ''---'' @ [NL] @ ''second''
      else if path f = ''draft.md''
        then ''---'' @ [NL] @ ''title: d'' @ [NL] @ ''---'' @ [NL] @ ''text''
      else ''hello'')"

definition ex_readBinary :: "TFile \<Rightarrow> bytes" where
  "ex_readBinary f = (if path f = ''img/pic.png'' then [1, 2, 3] else [4, 5])"

definition ex_lookup :: "TFile list \<Rightarrow> string \<Rightarrow> TAbstractFile option" where
  "ex_lookup fs p = map_option AFile (find (\<lambda>f. path f = p) fs)"

definition ex_vault :: "TFile list \<Rightarrow> TFile option \<Rightarrow> vault" where
  "ex_vault notes active =
     \<lparr>getMarkdownFiles = notes,
      getFiles = notes @ [pic1, pic2],
      getAbstractFileByPath = ex_lookup (notes @ [pic1, pic2]),
      read = ex_read,
      readBinary = ex_readBinary,
      getActiveFile = active\<rparr>"

definition ex_settings :: GeneralPublishSettings where
  "ex_settings = DEFAULT_SETTINGS\<lparr>gitRepoPath := ''/repo''\<rparr>"

text \<open>
  A host on which nothing fails: paths are joined with a slash, and the status is empty
  when the two notes' targets are committed as they are in the working tree.
\<close>

definition ex_exec :: "string \<Rightarrow> (string \<rightharpoonup> data) \<Rightarrow> (string \<rightharpoonup> data) \<Rightarrow> string + string" where
  "ex_exec cmd tree head =
     (if tree ''/repo/content/a.md'' = head ''/repo/content/a.md''
         \<and> tree ''/repo/content/b.md'' = head ''/repo/content/b.md''
      then Inr [] else Inr ''?? content/'')"

definition ex_host :: host where
  "ex_host =
     \<lparr>isAbsolute = prefix ''/'',
      resolve = (\<lambda>a b. a @ ''/'' @ b),
      mkdir_error = (\<lambda>p. None),
      writeFile_error = (\<lambda>p. None),
      exec = ex_exec,
      toISOString = ''2025-01-01T00:00:00.000Z'',
      confirmAddPublishFlag = (\<lambda>f. False)\<rparr>"

text \<open>A host on which writing one given path is denied.\<close>

definition ex_host_denied :: "string \<Rightarrow> host" where
  "ex_host_denied target =
     ex_host\<lparr>writeFile_error :=
       (\<lambda>p. if p = target then Some ''EACCES: permission denied'' else None)\<rparr>"

text \<open>A host whose status reports a change and whose commit fails with a given message.\<close>

definition ex_exec_failing ::
  "string \<Rightarrow> string \<Rightarrow> (string \<rightharpoonup> data) \<Rightarrow> (string \<rightharpoonup> data) \<Rightarrow> string + string" where
  "ex_exec_failing message cmd tree head =
     (if cmd = statusCommand ex_settings then Inr '' M content/a.md'' else Inl message)"

section \<open>Substring search\<close>

lemma find_sub_Some_append:
  "find_sub pat s = Some (b, a) \<Longrightarrow> s = b @ pat @ a"
proof (induction s arbitrary: b a)
  case Nil
  then show ?case by (simp split: if_splits)
next
  case (Cons c cs)
  show ?case
  proof (cases "prefix pat (c # cs)")
    case True
    with Cons.prems have "b = []" and "a = drop (length pat) (c # cs)" by simp_all
    moreover from True obtain zs where "c # cs = pat @ zs" by (auto simp: prefix_def)
    ultimately show ?thesis by simp
  next
    case False
    with Cons.prems obtain b' where "find_sub pat cs = Some (b', a)" and "b = c # b'"
      by (auto split: option.splits)
    with Cons.IH show ?thesis by simp
  qed
qed

lemma find_sub_Some_first:
  "find_sub pat s = Some (b, a) \<Longrightarrow> i < length b \<Longrightarrow> \<not> prefix pat (drop i s)"
proof (induction s arbitrary: b a i)
  case Nil
  then show ?case by (simp split: if_splits)
next
  case (Cons c cs)
  show ?case
  proof (cases "prefix pat (c # cs)")
    case True
    with Cons.prems show ?thesis by simp
  next
    case False
    with Cons.prems obtain b' where f: "find_sub pat cs = Some (b', a)" and b: "b = c # b'"
      by (auto split: option.splits)
    show ?thesis
    proof (cases i)
      case 0
      with False show ?thesis by simp
    next
      case (Suc j)
      with Cons.prems(2) b have "j < length b'" by simp
      with Cons.IH [OF f] Suc show ?thesis by simp
    qed
  qed
qed

lemma find_sub_first_occurrence:
  "(\<forall>i<length b. \<not> prefix pat (drop i (b @ pat @ a))) \<Longrightarrow>
     find_sub pat (b @ pat @ a) = Some (b, a)"
proof (induction b)
  case Nil
  show ?case by (cases pat; cases a) simp_all
next
  case (Cons c b)
  from Cons.prems have "\<not> prefix pat (drop 0 ((c # b) @ pat @ a))" by blast
  then have np: "\<not> prefix pat (c # b @ pat @ a)" by simp
  have "\<forall>i<length b. \<not> prefix pat (drop i (b @ pat @ a))"
  proof (intro allI impI)
    fix i assume "i < length b"
    then have "Suc i < length (c # b)" by simp
    with Cons.prems have "\<not> prefix pat (drop (Suc i) ((c # b) @ pat @ a))" by blast
    then show "\<not> prefix pat (drop i (b @ pat @ a))" by simp
  qed
  with Cons.IH have "find_sub pat (b @ pat @ a) = Some (b, a)" .
  with np show ?case by simp
qed

lemma find_sub_None:
  "find_sub pat s = None \<Longrightarrow> s \<noteq> b @ pat @ a"
proof (induction s arbitrary: b)
  case Nil
  then show ?case by (simp split: if_splits)
next
  case (Cons c cs)
  from Cons.prems have np: "\<not> prefix pat (c # cs)" and n: "find_sub pat cs = None"
    by (auto split: if_splits option.splits)
  show ?case
  proof (cases b)
    case Nil
    with np show ?thesis by (auto simp: prefix_def)
  next
    case (Cons d b')
    with Cons.IH [OF n, of b'] show ?thesis by auto
  qed
qed

lemma includes_iff:
  "includes_str s pat \<longleftrightarrow> (\<exists>b a. s = b @ pat @ a)"
proof
  assume "includes_str s pat"
  then obtain b a where "find_sub pat s = Some (b, a)"
    by (auto simp: includes_str_def)
  then show "\<exists>b a. s = b @ pat @ a" by (blast dest: find_sub_Some_append)
next
  assume "\<exists>b a. s = b @ pat @ a"
  then show "includes_str s pat"
    unfolding includes_str_def using find_sub_None by blast
qed

section \<open>The frontmatter expression\<close>

lemma frontmatterMatch_Some_iff:
  "frontmatterMatch content = Some (body, rest) \<longleftrightarrow>
     content = fm_open @ body @ fm_close @ rest
     \<and> (\<forall>i<length body. \<not> prefix fm_close (drop i (body @ fm_close @ rest)))"
proof
  assume m: "frontmatterMatch content = Some (body, rest)"
  then have p: "prefix fm_open content"
    and f: "find_sub fm_close (drop (length fm_open) content) = Some (body, rest)"
    by (auto simp: frontmatterMatch_def split: if_splits)
  from p obtain zs where c: "content = fm_open @ zs" by (auto simp: prefix_def)
  with f have f': "find_sub fm_close zs = Some (body, rest)" by simp
  then have zs: "zs = body @ fm_close @ rest" by (rule find_sub_Some_append)
  from f' have "\<forall>i<length body. \<not> prefix fm_close (drop i zs)"
    by (blast dest: find_sub_Some_first)
  with c zs show "content = fm_open @ body @ fm_close @ rest
     \<and> (\<forall>i<length body. \<not> prefix fm_close (drop i (body @ fm_close @ rest)))"
    by simp
next
  assume a: "content = fm_open @ body @ fm_close @ rest
     \<and> (\<forall>i<length body. \<not> prefix fm_close (drop i (body @ fm_close @ rest)))"
  then have "find_sub fm_close (body @ fm_close @ rest) = Some (body, rest)"
    by (intro find_sub_first_occurrence) simp
  with a show "frontmatterMatch content = Some (body, rest)"
    by (simp add: frontmatterMatch_def)
qed

lemma frontmatterMatch_None_iff:
  "frontmatterMatch content = None \<longleftrightarrow>
     \<not> (\<exists>body rest. content = fm_open @ body @ fm_close @ rest)"
proof
  assume n: "frontmatterMatch content = None"
  show "\<not> (\<exists>body rest. content = fm_open @ body @ fm_close @ rest)"
  proof
    assume "\<exists>body rest. content = fm_open @ body @ fm_close @ rest"
    then obtain body rest where c: "content = fm_open @ body @ fm_close @ rest" by blast
    with n have "find_sub fm_close (body @ fm_close @ rest) = None"
      by (simp add: frontmatterMatch_def)
    then show False using find_sub_None by blast
  qed
next
  assume a: "\<not> (\<exists>body rest. content = fm_open @ body @ fm_close @ rest)"
  show "frontmatterMatch content = None"
  proof (cases "frontmatterMatch content")
    case None
    then show ?thesis .
  next
    case (Some m)
    then obtain body rest where "frontmatterMatch content = Some (body, rest)"
      by (cases m) simp
    with a show ?thesis by (auto simp: frontmatterMatch_Some_iff)
  qed
qed

section \<open>Publish eligibility\<close>

text \<open>
  C1, as the code has it. \<open>shouldPublish\<close> answers true exactly when the text starts
  with a line of three hyphens and its newline, a newline followed by three hyphens
  occurs later, and the text between the opening line and the first such occurrence
  contains \<open>publish: true\<close> or \<open>publish:true\<close>. The closing hyphens need not be a whole
  line. The function is total: in every other case it answers false.
\<close>

theorem shouldPublish_iff:
  "shouldPublish content \<longleftrightarrow>
     (\<exists>body rest.
        content = fm_open @ body @ fm_close @ rest
        \<and> (\<forall>i<length body. \<not> prefix fm_close (drop i (body @ fm_close @ rest)))
        \<and> ((\<exists>u w. body = u @ ''publish: true'' @ w) \<or> (\<exists>u w. body = u @ ''publish:true'' @ w)))"
proof
  assume sp: "shouldPublish content"
  then obtain body rest where m: "frontmatterMatch content = Some (body, rest)"
    by (auto simp: shouldPublish_def split: option.splits)
  with sp have "includes_str body ''publish: true'' \<or> includes_str body ''publish:true''"
    by (simp add: shouldPublish_def)
  with m show "\<exists>body rest.
        content = fm_open @ body @ fm_close @ rest
        \<and> (\<forall>i<length body. \<not> prefix fm_close (drop i (body @ fm_close @ rest)))
        \<and> ((\<exists>u w. body = u @ ''publish: true'' @ w) \<or> (\<exists>u w. body = u @ ''publish:true'' @ w))"
    unfolding frontmatterMatch_Some_iff includes_iff by blast
next
  assume "\<exists>body rest.
        content = fm_open @ body @ fm_close @ rest
        \<and> (\<forall>i<length body. \<not> prefix fm_close (drop i (body @ fm_close @ rest)))
        \<and> ((\<exists>u w. body = u @ ''publish: true'' @ w) \<or> (\<exists>u w. body = u @ ''publish:true'' @ w))"
  then obtain body rest where
    m: "frontmatterMatch content = Some (body, rest)" and
    i: "includes_str body ''publish: true'' \<or> includes_str body ''publish:true''"
    unfolding frontmatterMatch_Some_iff includes_iff by blast
  then show "shouldPublish content" by (simp add: shouldPublish_def)
qed

theorem shouldPublish_iff_witness:
  "shouldPublish (''---'' @ [NL] @ ''publish: true'' @ [NL] @ ''---'' @ [NL] @ ''text'')"
proof -
  let ?body = "''publish: true''" and ?rest = "NL # ''text''"
  have 1: "''---'' @ [NL] @ ''publish: true'' @ [NL] @ ''---'' @ [NL] @ ''text''
             = fm_open @ ?body @ fm_close @ ?rest"
    by (simp add: fm_open_def fm_close_def)
  have 2: "\<forall>i<length ?body. \<not> prefix fm_close (drop i (?body @ fm_close @ ?rest))"
    by (simp add: fm_close_def NL_def All_less_Suc)
  have 3: "\<exists>u w. ?body = u @ ''publish: true'' @ w"
    by (intro exI [of _ "[]"]) simp
  from 1 2 3 show ?thesis
    unfolding shouldPublish_iff by blast
qed

text \<open>
  C1 as stated fails: in the text below the only line of exactly three hyphens is the
  first, so there is no block in the specification's sense, and the code answers true.
\<close>

theorem shouldPublish_closing_counterexample:
  "shouldPublish (''---'' @ [NL] @ ''publish: true'' @ [NL] @ ''---x'')
   \<and> spec_frontmatter (''---'' @ [NL] @ ''publish: true'' @ [NL] @ ''---x'') = None
   \<and> \<not> spec_shouldPublish (''---'' @ [NL] @ ''publish: true'' @ [NL] @ ''---x'')"
  by (simp add: shouldPublish_def frontmatterMatch_def fm_open_def fm_close_def NL_def
      includes_str_def spec_frontmatter_def spec_shouldPublish_def)

section \<open>Adding the flag\<close>

text \<open>
  A replacement string without a dollar sign is taken as it is.
\<close>

lemma GetSubstitution_no_dollar:
  "CHR ''$'' \<notin> set template \<Longrightarrow>
     GetSubstitution matched preceding following captures template = template"
  by (induction matched preceding following captures template rule: GetSubstitution.induct)
     auto

lemma addPublishFlag_text_match:
  assumes "frontmatterMatch content = Some (body, rest)" and "CHR ''$'' \<notin> set body"
  shows "addPublishFlag_text content = fm_open @ body @ NL # ''publish: true'' @ fm_close @ rest"
proof -
  have "CHR ''$'' \<notin> set (fm_open @ (body @ NL # ''publish: true'') @ fm_close)"
    using assms(2) by (simp add: fm_open_def fm_close_def NL_def)
  then show ?thesis
    using assms(1)
    by (simp add: addPublishFlag_text_def replace_frontmatter_def GetSubstitution_no_dollar)
qed

lemma addPublishFlag_text_no_match:
  "frontmatterMatch content = None \<Longrightarrow>
     addPublishFlag_text content = fm_open @ ''publish: true'' @ fm_close @ [NL, NL] @ content"
  by (simp add: addPublishFlag_text_def)

lemma publishCurrentNote_declined:
  assumes "getActiveFile v = Some file" and "\<not> shouldPublishFile v file"
    and "\<not> confirmAddPublishFlag h file"
  shows "publishCurrentNote h s v w =
           (v, if gitRepoPath s = [] then emit (Notice PleaseConfigure) w else w)"
  using assms by (simp add: publishCurrentNote_def)

text \<open>
  Where the frontmatter holds a dollar pattern, \<open>replace\<close> expands it: the flag is
  added, and \<open>$$\<close> of the original block comes out as \<open>$\<close>.
\<close>

lemma addPublishFlag_text_dollar:
  "addPublishFlag_text (''---'' @ [NL] @ ''price: $$5'' @ [NL] @ ''---'' @ [NL])
     = ''---'' @ [NL] @ ''price: $5'' @ [NL] @ ''publish: true'' @ [NL] @ ''---'' @ [NL]"
  by (simp add: addPublishFlag_text_def replace_frontmatter_def frontmatterMatch_def
      fm_open_def fm_close_def NL_def is_digit_def)

text \<open>
  C9, as the code has it. When the text starts with a line of three hyphens and a
  newline followed by three hyphens occurs later, and the text between the opening line
  and the first such occurrence holds no dollar sign, \<open>addPublishFlag\<close> inserts the
  line \<open>publish: true\<close> right before that occurrence and changes nothing else. When
  there is no such occurrence it puts \<open>---\<close>, the flag line, \<open>---\<close> and a blank line
  before the original text. No other document is touched. When the active note lacks
  the flag and the confirmation is declined, the corpus and the file system stay as
  they are; at most the notice asking for the repository path is shown.
\<close>

theorem addPublishFlag_cases:
  "(read v file = fm_open @ body @ fm_close @ rest
      \<and> (\<forall>i<length body. \<not> prefix fm_close (drop i (body @ fm_close @ rest)))
      \<and> CHR ''$'' \<notin> set body
    \<longrightarrow> read (addPublishFlag v file) file
          = fm_open @ body @ NL # ''publish: true'' @ fm_close @ rest)
   \<and> (\<not> (\<exists>body rest. read v file = fm_open @ body @ fm_close @ rest)
    \<longrightarrow> read (addPublishFlag v file) file
          = fm_open @ ''publish: true'' @ fm_close @ [NL, NL] @ read v file)
   \<and> (\<forall>other. other \<noteq> file \<longrightarrow> read (addPublishFlag v file) other = read v other)
   \<and> (getActiveFile v = Some file \<and> \<not> shouldPublishFile v file
        \<and> \<not> confirmAddPublishFlag h file
    \<longrightarrow> publishCurrentNote h s v w
          = (v, if gitRepoPath s = [] then emit (Notice PleaseConfigure) w else w))"
proof (intro conjI impI allI)
  assume "read v file = fm_open @ body @ fm_close @ rest
      \<and> (\<forall>i<length body. \<not> prefix fm_close (drop i (body @ fm_close @ rest)))
      \<and> CHR ''$'' \<notin> set body"
  then have "frontmatterMatch (read v file) = Some (body, rest)" and "CHR ''$'' \<notin> set body"
    by (simp_all add: frontmatterMatch_Some_iff)
  then show "read (addPublishFlag v file) file
          = fm_open @ body @ NL # ''publish: true'' @ fm_close @ rest"
    by (simp add: addPublishFlag_def modify_def addPublishFlag_text_match)
next
  assume "\<not> (\<exists>body rest. read v file = fm_open @ body @ fm_close @ rest)"
  then have "frontmatterMatch (read v file) = None"
    by (simp add: frontmatterMatch_None_iff)
  then show "read (addPublishFlag v file) file
          = fm_open @ ''publish: true'' @ fm_close @ [NL, NL] @ read v file"
    by (simp add: addPublishFlag_def modify_def addPublishFlag_text_no_match)
next
  fix other assume "other \<noteq> file"
  then show "read (addPublishFlag v file) other = read v other"
    by (simp add: addPublishFlag_def modify_def)
next
  assume a: "getActiveFile v = Some file \<and> \<not> shouldPublishFile v file
        \<and> \<not> confirmAddPublishFlag h file"
  then show "publishCurrentNote h s v w
          = (v, if gitRepoPath s = [] then emit (Notice PleaseConfigure) w else w)"
    by (simp add: publishCurrentNote_declined)
qed

theorem addPublishFlag_cases_witness:
  "read (addPublishFlag (ex_vault [draft, plain] (Some draft)) draft) draft
     = ''---'' @ [NL] @ ''title: d'' @ [NL] @ ''publish: true'' @ [NL] @ ''---'' @ [NL] @ ''text''
   \<and> read (addPublishFlag (ex_vault [draft, plain] (Some draft)) plain) plain
     = ''---'' @ [NL] @ ''publish: true'' @ [NL] @ ''---'' @ [NL, NL] @ ''hello''
   \<and> read (addPublishFlag (ex_vault [draft, plain] (Some draft)) draft) plain = ''hello''
   \<and> publishCurrentNote ex_host ex_settings (ex_vault [draft, plain] (Some draft)) empty_world
     = (ex_vault [draft, plain] (Some draft), empty_world)"
proof -
  let ?v = "ex_vault [draft, plain] (Some draft)"
  have rd: "read ?v draft = fm_open @ ''title: d'' @ fm_close @ (NL # ''text'')"
    by (simp add: ex_vault_def ex_read_def draft_def fm_open_def fm_close_def)
  have first: "\<forall>i<length ''title: d''.
      \<not> prefix fm_close (drop i (''title: d'' @ fm_close @ (NL # ''text'')))"
    by (simp add: fm_close_def NL_def All_less_Suc)
  have nd: "CHR ''$'' \<notin> set ''title: d''" by simp
  have rp: "read ?v plain = ''hello''"
    by (simp add: ex_vault_def ex_read_def plain_def)
  have np: "\<not> (\<exists>body rest. read ?v plain = fm_open @ body @ fm_close @ rest)"
    by (simp add: rp fm_open_def)
  have ne: "plain \<noteq> draft" by (simp add: plain_def draft_def)
  have ac: "getActiveFile ?v = Some draft" by (simp add: ex_vault_def)
  have ns: "\<not> shouldPublishFile ?v draft"
    by (simp add: shouldPublishFile_def shouldPublish_def frontmatterMatch_def ex_vault_def
        ex_read_def draft_def fm_open_def fm_close_def NL_def includes_str_def)
  have nc: "\<not> confirmAddPublishFlag ex_host draft" by (simp add: ex_host_def)
  have root: "gitRepoPath ex_settings \<noteq> []" by (simp add: ex_settings_def)
  note a = addPublishFlag_cases [of ?v draft "''title: d''" "NL # ''text''" ex_host ex_settings empty_world]
  note b = addPublishFlag_cases [of ?v plain "[]" "[]" ex_host ex_settings empty_world]
  from a rd first nd have 1: "read (addPublishFlag ?v draft) draft
     = fm_open @ ''title: d'' @ NL # ''publish: true'' @ fm_close @ (NL # ''text'')" by blast
  from b np have 2: "read (addPublishFlag ?v plain) plain
     = fm_open @ ''publish: true'' @ fm_close @ [NL, NL] @ read ?v plain" by blast
  from a ne have 3: "read (addPublishFlag ?v draft) plain = read ?v plain" by blast
  from a ac ns nc have 4: "publishCurrentNote ex_host ex_settings ?v empty_world
          = (?v, if gitRepoPath ex_settings = [] then emit (Notice PleaseConfigure) empty_world
                 else empty_world)" by blast
  from 1 2 3 4 rp root show ?thesis
    by (simp add: fm_open_def fm_close_def)
qed

text \<open>
  C9 as stated fails: the text below has no closing line of exactly three hyphens, so
  no block in the specification's sense, and the flag is inserted, not a block prepended.
\<close>

theorem addPublishFlag_counterexample:
  "spec_frontmatter (''---'' @ [NL] @ ''a'' @ [NL] @ ''---x'') = None
   \<and> addPublishFlag_text (''---'' @ [NL] @ ''a'' @ [NL] @ ''---x'')
       = ''---'' @ [NL] @ ''a'' @ [NL] @ ''publish: true'' @ [NL] @ ''---x''
   \<and> addPublishFlag_text (''---'' @ [NL] @ ''a'' @ [NL] @ ''---x'')
       \<noteq> ''---'' @ [NL] @ ''publish: true'' @ [NL] @ ''---'' @ [NL, NL]
           @ (''---'' @ [NL] @ ''a'' @ [NL] @ ''---x'')"
  by (simp add: addPublishFlag_text_def replace_frontmatter_def frontmatterMatch_def
      fm_open_def fm_close_def NL_def is_digit_def spec_frontmatter_def)

section \<open>Resolution\<close>

lemma find_distinct_path:
  "distinct (map path fs) \<Longrightarrow> f \<in> set fs \<Longrightarrow> find (\<lambda>g. path g = path f) fs = Some f"
proof (induction fs)
  case Nil
  then show ?case by simp
next
  case (Cons g fs)
  show ?case
  proof (cases "g = f")
    case True
    then show ?thesis by simp
  next
    case False
    with Cons.prems have m: "f \<in> set fs" by simp
    with Cons.prems have "path g \<noteq> path f" by force
    with Cons m show ?thesis by simp
  qed
qed

lemma find_cong_set:
  "(\<And>x. x \<in> set xs \<Longrightarrow> P x = Q x) \<Longrightarrow> find P xs = find Q xs"
  by (induction xs) simp_all

lemma ex_lookup_file:
  "distinct (map path fs) \<Longrightarrow>
     ex_lookup fs p = Some (AFile f) \<longleftrightarrow> f \<in> set fs \<and> path f = p"
proof
  assume "ex_lookup fs p = Some (AFile f)"
  then have "find (\<lambda>g. path g = p) fs = Some f" by (auto simp: ex_lookup_def)
  then show "f \<in> set fs \<and> path f = p" by (auto simp: find_Some_iff)
next
  assume d: "distinct (map path fs)" and m: "f \<in> set fs \<and> path f = p"
  from d m have "find (\<lambda>g. path g = path f) fs = Some f"
    by (intro find_distinct_path) simp_all
  with m show "ex_lookup fs p = Some (AFile f)" by (auto simp: ex_lookup_def)
qed

text \<open>
  C3. On a consistent corpus a name resolves to the file whose path is the name, if
  there is one; otherwise to the first file of the enumeration \<open>getFiles\<close> whose
  filename is the name or the name's last segment; otherwise to nothing. \<open>find\<close>
  answers the first element of the list that passes the test, so the enumeration
  order breaks ties, and the result is a function of the corpus and the name.
\<close>

theorem resolveImage_priority:
  assumes "consistent v"
  shows "resolveImage v imageName =
     (case find (\<lambda>file. path file = imageName) (getFiles v) of
        Some file \<Rightarrow> Some file
      | None \<Rightarrow>
          find (\<lambda>file. name file = imageName \<or> name file = last_segment imageName)
               (getFiles v))"
proof (cases "\<exists>f. getAbstractFileByPath v imageName = Some (AFile f)")
  case True
  then obtain f where l: "getAbstractFileByPath v imageName = Some (AFile f)" by blast
  with assms have "f \<in> set (getFiles v)" and "path f = imageName"
    and "distinct (map path (getFiles v))"
    by (auto simp: consistent_def)
  then have "find (\<lambda>g. path g = imageName) (getFiles v) = Some f"
    using find_distinct_path by blast
  with l show ?thesis by (simp add: resolveImage_def)
next
  case False
  with assms have none: "\<And>g. g \<in> set (getFiles v) \<Longrightarrow> path g \<noteq> imageName"
    by (auto simp: consistent_def)
  then have p: "find (\<lambda>g. path g = imageName) (getFiles v) = None"
    by (simp add: find_None_iff)
  have "find (\<lambda>file. name file = imageName \<or> name file = last_segment imageName
                     \<or> path file = imageName) (getFiles v)
        = find (\<lambda>file. name file = imageName \<or> name file = last_segment imageName)
            (getFiles v)"
    by (rule find_cong_set) (simp add: none)
  with False p show ?thesis
    by (auto simp: resolveImage_def split: option.splits TAbstractFile.splits)
qed

theorem resolveImage_priority_witness:
  "consistent (ex_vault [note_a] None)
   \<and> resolveImage (ex_vault [note_a] None) ''old/pic.png'' = Some pic2
   \<and> resolveImage (ex_vault [note_a] None) ''pic.png'' = Some pic1
   \<and> resolveImage (ex_vault [note_a] None) ''x/pic.png'' = Some pic1
   \<and> resolveImage (ex_vault [note_a] None) ''missing.png'' = None"
proof -
  let ?v = "ex_vault [note_a] None"
  have d: "distinct (map path (getFiles ?v))"
    by (simp add: ex_vault_def note_a_def pic1_def pic2_def)
  then have c: "consistent ?v"
    unfolding consistent_def using ex_lookup_file [of "getFiles ?v"]
    by (simp add: ex_vault_def)
  show ?thesis
    using c resolveImage_priority [OF c]
    by (simp add: ex_vault_def note_a_def pic1_def pic2_def last_segment_def)
qed

section \<open>The commit step\<close>

lemma commitChanges_files:
  "files (snd (commitChanges h s w)) = files w \<and> dirs (snd (commitChanges h s w)) = dirs w"
  by (simp add: commitChanges_def commit_catch_def emit_def Let_def split: sum.splits)

text \<open>
  C5. When the status command prints nothing but white space, \<open>commitChanges\<close>
  answers \<open>false\<close> (no changes) and the status command is the only command it has
  run. When the status shows a change and the commit command fails, the answer is
  \<open>false\<close> if the error's message contains \<open>nothing to commit\<close> or
  \<open>working tree clean\<close>, and the error itself, thrown, otherwise. In every case the
  files and directories are left as they were.
\<close>

theorem commitChanges_outcomes:
  "(exec h (statusCommand s) (files w) (committed w) = Inr out \<and> trim out = []
      \<longrightarrow> commitChanges h s w = (Inr False, emit (Exec (statusCommand s)) w))
   \<and> (exec h (statusCommand s) (files w) (committed w) = Inr out \<and> trim out \<noteq> []
       \<and> exec h (gitCommands s (replace_first (commitMessage s) ''{timestamp}'' (toISOString h)))
            (files w) (committed w) = Inl err
       \<and> ((\<exists>u x. err = u @ ''nothing to commit'' @ x)
            \<or> (\<exists>u x. err = u @ ''working tree clean'' @ x))
      \<longrightarrow> fst (commitChanges h s w) = Inr False)
   \<and> (exec h (statusCommand s) (files w) (committed w) = Inr out \<and> trim out \<noteq> []
       \<and> exec h (gitCommands s (replace_first (commitMessage s) ''{timestamp}'' (toISOString h)))
            (files w) (committed w) = Inl err
       \<and> (\<nexists>u x. err = u @ ''nothing to commit'' @ x)
       \<and> (\<nexists>u x. err = u @ ''working tree clean'' @ x)
      \<longrightarrow> fst (commitChanges h s w) = Inl err)
   \<and> files (snd (commitChanges h s w)) = files w
   \<and> dirs (snd (commitChanges h s w)) = dirs w"
proof (intro conjI impI)
  assume "exec h (statusCommand s) (files w) (committed w) = Inr out \<and> trim out = []"
  then show "commitChanges h s w = (Inr False, emit (Exec (statusCommand s)) w)"
    by (simp add: commitChanges_def)
next
  assume "exec h (statusCommand s) (files w) (committed w) = Inr out \<and> trim out \<noteq> []
       \<and> exec h (gitCommands s (replace_first (commitMessage s) ''{timestamp}'' (toISOString h)))
            (files w) (committed w) = Inl err
       \<and> ((\<exists>u x. err = u @ ''nothing to commit'' @ x)
            \<or> (\<exists>u x. err = u @ ''working tree clean'' @ x))"
  then show "fst (commitChanges h s w) = Inr False"
    by (simp add: commitChanges_def commit_catch_def Let_def includes_iff)
next
  assume "exec h (statusCommand s) (files w) (committed w) = Inr out \<and> trim out \<noteq> []
       \<and> exec h (gitCommands s (replace_first (commitMessage s) ''{timestamp}'' (toISOString h)))
            (files w) (committed w) = Inl err
       \<and> (\<nexists>u x. err = u @ ''nothing to commit'' @ x)
       \<and> (\<nexists>u x. err = u @ ''working tree clean'' @ x)"
  then show "fst (commitChanges h s w) = Inl err"
    by (simp add: commitChanges_def commit_catch_def Let_def includes_iff)
next
  show "files (snd (commitChanges h s w)) = files w"
    by (simp add: commitChanges_files)
  show "dirs (snd (commitChanges h s w)) = dirs w"
    by (simp add: commitChanges_files)
qed

lemma ex_gitCommands:
  "gitCommands ex_settings (replace_first (commitMessage ex_settings) ''{timestamp}'' t) \<noteq> statusCommand ex_settings"
  by (simp add: gitCommands_def statusCommand_def ex_settings_def DEFAULT_SETTINGS_def)

theorem commitChanges_outcomes_witness:
  "commitChanges ex_host ex_settings empty_world
     = (Inr False, emit (Exec (statusCommand ex_settings)) empty_world)
   \<and> fst (commitChanges (ex_host\<lparr>exec := ex_exec_failing ''On branch main: nothing to commit, working tree clean''\<rparr>)
            ex_settings empty_world) = Inr False
   \<and> fst (commitChanges (ex_host\<lparr>exec := ex_exec_failing ''fatal: unable to write new index file''\<rparr>)
            ex_settings empty_world) = Inl ''fatal: unable to write new index file''"
proof -
  let ?m1 = "''On branch main: nothing to commit, working tree clean''"
  let ?m2 = "''fatal: unable to write new index file''"
  let ?h1 = "ex_host\<lparr>exec := ex_exec_failing ?m1\<rparr>"
  let ?h2 = "ex_host\<lparr>exec := ex_exec_failing ?m2\<rparr>"
  have s0: "exec ex_host (statusCommand ex_settings) (files empty_world) (committed empty_world) = Inr []"
    by (simp add: ex_host_def ex_exec_def empty_world_def)
  have t0: "trim [] = []" by (simp add: trim_def)
  have 1: "commitChanges ex_host ex_settings empty_world
     = (Inr False, emit (Exec (statusCommand ex_settings)) empty_world)"
    using commitChanges_outcomes [of ex_host ex_settings empty_world "[]"] s0 t0 by blast
  have t1: "trim '' M content/a.md'' \<noteq> []"
    by (simp add: trim_def is_whitespace_def)
  have s1: "exec ?h1 (statusCommand ex_settings) (files empty_world) (committed empty_world)
              = Inr '' M content/a.md''"
    and s2: "exec ?h2 (statusCommand ex_settings) (files empty_world) (committed empty_world)
              = Inr '' M content/a.md''"
    by (simp_all add: ex_exec_failing_def)
  have c1: "exec ?h1 (gitCommands ex_settings
              (replace_first (commitMessage ex_settings) ''{timestamp}'' (toISOString ?h1)))
              (files empty_world) (committed empty_world) = Inl ?m1"
    and c2: "exec ?h2 (gitCommands ex_settings
              (replace_first (commitMessage ex_settings) ''{timestamp}'' (toISOString ?h2)))
              (files empty_world) (committed empty_world) = Inl ?m2"
    by (simp_all add: ex_exec_failing_def ex_gitCommands)
  have i1: "\<exists>u x. ?m1 = u @ ''nothing to commit'' @ x"
    by (intro exI [of _ "''On branch main: ''"] exI [of _ "'', working tree clean''"]) simp
  have i2: "(\<nexists>u x. ?m2 = u @ ''nothing to commit'' @ x)
            \<and> (\<nexists>u x. ?m2 = u @ ''working tree clean'' @ x)"
    unfolding includes_iff [symmetric] by (simp add: includes_str_def)
  have 2: "fst (commitChanges ?h1 ex_settings empty_world) = Inr False"
    using commitChanges_outcomes [of ?h1 ex_settings empty_world "'' M content/a.md''" ?m1]
      s1 t1 c1 i1 by blast
  have 3: "fst (commitChanges ?h2 ex_settings empty_world) = Inl ?m2"
    using commitChanges_outcomes [of ?h2 ex_settings empty_world "'' M content/a.md''" ?m2]
      s2 t1 c2 i2 by blast
  from 1 2 3 show ?thesis by blast
qed

section \<open>The mirror writes onto any world alike\<close>

lemma shift_empty [simp]: "shift w empty_world = w"
  by (simp add: shift_def empty_world_def)

lemma shift_assoc: "shift (shift w a) b = shift w (shift a b)"
  by (simp add: shift_def Un_assoc)

lemma shift_simps [simp]:
  "files (shift w d) = files w ++ files d"
  "dirs (shift w d) = dirs w \<union> dirs d"
  "committed (shift w d) = committed w"
  "trace (shift w d) = trace w @ trace d"
  by (simp_all add: shift_def)

lemma emitted_shift [simp]: "emitted w (shift w d) = trace d"
  by (simp add: emitted_def)

lemma emit_shift: "emit e (shift w d) = shift w (emit e d)"
  by (simp add: emit_def shift_def)

lemma mkdir_shift: "mkdir h dir (shift w d) = apsnd (shift w) (mkdir h dir d)"
  by (simp add: mkdir_def emit_def shift_def split: option.splits)

lemma writeFile_shift:
  "writeFile h target x (shift w d) = apsnd (shift w) (writeFile h target x d)"
  by (simp add: writeFile_def emit_def shift_def split: option.splits)

lemma copyAssetToRepo_shift:
  "copyAssetToRepo h s v a (shift w d) = apsnd (shift w) (copyAssetToRepo h s v a d)"
  by (simp add: copyAssetToRepo_def Let_def mkdir_shift writeFile_shift
      split: prod.splits sum.splits)

lemma copyOneAsset_shift:
  "copyOneAsset h s v n (shift w d) = shift w (copyOneAsset h s v n d)"
  by (simp add: copyOneAsset_def copyAssetToRepo_shift emit_shift
      split: option.splits prod.splits sum.splits)

lemma fold_copyOneAsset_shift:
  "fold (copyOneAsset h s v) ns (shift w d) = shift w (fold (copyOneAsset h s v) ns d)"
  by (induction ns arbitrary: d) (simp_all add: copyOneAsset_shift)

lemma copyReferencedAssets_shift:
  "copyReferencedAssets h s v content f (shift w d)
     = shift w (copyReferencedAssets h s v content f d)"
  by (simp add: copyReferencedAssets_def fold_copyOneAsset_shift)

lemma copyFileToRepo_shift:
  "copyFileToRepo h s v f (shift w d) = apsnd (shift w) (copyFileToRepo h s v f d)"
  by (simp add: copyFileToRepo_def Let_def mkdir_shift writeFile_shift
      copyReferencedAssets_shift split: prod.splits sum.splits)

lemma copyFilesToRepo_shift:
  "copyFilesToRepo h s v fs (shift w d) = apsnd (shift w) (copyFilesToRepo h s v fs d)"
proof (induction fs arbitrary: d)
  case Nil
  show ?case by simp
next
  case (Cons f fs)
  show ?case
  proof (cases "copyFileToRepo h s v f d")
    case (Pair r d1)
    then show ?thesis
      by (cases r) (simp_all add: copyFileToRepo_shift Cons.IH)
  qed
qed

lemma copyFilesToRepo_from_empty:
  "copyFilesToRepo h s v fs w = apsnd (shift w) (copyFilesToRepo h s v fs empty_world)"
  using copyFilesToRepo_shift [of h s v fs w empty_world] by simp

lemma copyFileToRepo_from_empty:
  "copyFileToRepo h s v f w = apsnd (shift w) (copyFileToRepo h s v f empty_world)"
  using copyFileToRepo_shift [of h s v f w empty_world] by simp

section \<open>What the mirror writes\<close>

lemma resolvedAssets_member:
  "n \<in> set (imageNames content) \<Longrightarrow> resolveImage v n = Some a \<Longrightarrow>
     a \<in> set (resolvedAssets v content)"
  by (force simp: resolvedAssets_def List.map_filter_def)

lemma mkdir_trace: "trace (snd (mkdir h dir w)) = trace w @ [Mkdir dir]"
  by (simp add: mkdir_def emit_def split: option.splits)

lemma writeFile_trace: "trace (snd (writeFile h target d w)) = trace w @ [WriteFile target d]"
  by (simp add: writeFile_def emit_def split: option.splits)

lemma copyAssetToRepo_mirrored:
  assumes "f \<in> set fs" and "a \<in> set (resolvedAssets v (read v f))"
    and "\<forall>e \<in> set (trace w). mirrored h s v fs e"
  shows "\<forall>e \<in> set (trace (snd (copyAssetToRepo h s v a w))). mirrored h s v fs e"
  using assms
  by (auto simp: copyAssetToRepo_def Let_def mkdir_def writeFile_def emit_def assetTarget_def
      split: option.splits)

lemma copyOneAsset_mirrored:
  assumes "f \<in> set fs" and "n \<in> set (imageNames (read v f))"
    and "\<forall>e \<in> set (trace w). mirrored h s v fs e"
  shows "\<forall>e \<in> set (trace (copyOneAsset h s v n w)). mirrored h s v fs e"
proof (cases "resolveImage v n")
  case None
  with assms(3) show ?thesis by (simp add: copyOneAsset_def emit_def)
next
  case (Some a)
  with assms(2) have "a \<in> set (resolvedAssets v (read v f))"
    by (simp add: resolvedAssets_member)
  with assms have m: "\<forall>e \<in> set (trace (snd (copyAssetToRepo h s v a w))). mirrored h s v fs e"
    by (intro copyAssetToRepo_mirrored)
  show ?thesis
  proof (cases "copyAssetToRepo h s v a w")
    case (Pair r w1)
    with m Some show ?thesis
      by (cases r) (simp_all add: copyOneAsset_def emit_def)
  qed
qed

lemma fold_copyOneAsset_mirrored:
  assumes "f \<in> set fs" and "set ns \<subseteq> set (imageNames (read v f))"
    and "\<forall>e \<in> set (trace w). mirrored h s v fs e"
  shows "\<forall>e \<in> set (trace (fold (copyOneAsset h s v) ns w)). mirrored h s v fs e"
  using assms(2,3)
proof (induction ns arbitrary: w)
  case Nil
  then show ?case by simp
next
  case (Cons n ns)
  from Cons.prems assms(1)
  have "\<forall>e \<in> set (trace (copyOneAsset h s v n w)). mirrored h s v fs e"
    by (intro copyOneAsset_mirrored [where f = f]) simp_all
  with Cons.IH [of "copyOneAsset h s v n w"] Cons.prems(1) show ?case by simp
qed

lemma copyFileToRepo_mirrored:
  assumes "f \<in> set fs" and "\<forall>e \<in> set (trace w). mirrored h s v fs e"
  shows "\<forall>e \<in> set (trace (snd (copyFileToRepo h s v f w))). mirrored h s v fs e"
proof (cases "isAbsolute h (gitRepoPath s)")
  case False
  with assms(2) show ?thesis by (simp add: copyFileToRepo_def)
next
  case True
  let ?dir = "resolve h (gitRepoPath s) (publishFolder s)"
  obtain r1 w1 where m: "mkdir h ?dir w = (r1, w1)" by (cases "mkdir h ?dir w")
  obtain r2 w2 where x: "writeFile h (documentTarget h s f) (Utf8 (read v f)) w1 = (r2, w2)"
    by (cases "writeFile h (documentTarget h s f) (Utf8 (read v f)) w1")
  from m have "trace w1 = trace w @ [Mkdir ?dir]"
    using mkdir_trace [of h ?dir w] by simp
  with assms(2) have 1: "\<forall>e \<in> set (trace w1). mirrored h s v fs e" by simp
  from x have "trace w2 = trace w1 @ [WriteFile (documentTarget h s f) (Utf8 (read v f))]"
    using writeFile_trace [of h "documentTarget h s f" "Utf8 (read v f)" w1] by simp
  with 1 assms(1) have 2: "\<forall>e \<in> set (trace w2). mirrored h s v fs e" by auto
  from assms(1) 2
  have 3: "\<forall>e \<in> set (trace (fold (copyOneAsset h s v) (imageNames (read v f)) w2)).
             mirrored h s v fs e"
    by (intro fold_copyOneAsset_mirrored [where f = f]) simp_all
  from True m x have "snd (copyFileToRepo h s v f w)
      = (case r1 of Inl e \<Rightarrow> w1
         | Inr u \<Rightarrow> (case r2 of Inl e \<Rightarrow> w2
                    | Inr u \<Rightarrow> fold (copyOneAsset h s v) (imageNames (read v f)) w2))"
    by (simp add: copyFileToRepo_def Let_def processContent_def copyReferencedAssets_def
        documentTarget_def split: sum.splits)
  with 1 2 3 show ?thesis by (simp split: sum.splits)
qed

lemma copyFilesToRepo_mirrored:
  assumes "set gs \<subseteq> set fs" and "\<forall>e \<in> set (trace w). mirrored h s v fs e"
  shows "\<forall>e \<in> set (trace (snd (copyFilesToRepo h s v gs w))). mirrored h s v fs e"
  using assms
proof (induction gs arbitrary: w)
  case Nil
  then show ?case by simp
next
  case (Cons g gs)
  then have m: "\<forall>e \<in> set (trace (snd (copyFileToRepo h s v g w))). mirrored h s v fs e"
    by (intro copyFileToRepo_mirrored) simp_all
  show ?case
  proof (cases "copyFileToRepo h s v g w")
    case (Pair r w1)
    show ?thesis
    proof (cases r)
      case (Inl e)
      with Pair m show ?thesis by simp
    next
      case (Inr u)
      with Pair m Cons.IH [of w1] Cons.prems(1) show ?thesis by simp
    qed
  qed
qed

lemma copyFilesToRepo_emitted:
  "emitted w (snd (copyFilesToRepo h s v fs w)) = trace (snd (copyFilesToRepo h s v fs empty_world))"
  by (subst copyFilesToRepo_from_empty) simp

lemma copyFilesToRepo_emitted_mirrored:
  "\<forall>e \<in> set (emitted w (snd (copyFilesToRepo h s v fs w))). mirrored h s v fs e"
  unfolding copyFilesToRepo_emitted
  by (rule copyFilesToRepo_mirrored) (simp_all add: empty_world_def)

section \<open>When a document's copy fails\<close>

text \<open>
  Copying a document fails exactly when the root is not absolute, or the publish
  directory cannot be made, or the document cannot be written; the assets play no part.
\<close>

lemma copyFileToRepo_result:
  "fst (copyFileToRepo h s v f w) =
     (if \<not> isAbsolute h (gitRepoPath s)
      then Inl ''Git repository path must be an absolute path''
      else (case mkdir_error h (resolve h (gitRepoPath s) (publishFolder s)) of
              Some e \<Rightarrow> Inl e
            | None \<Rightarrow>
                (case writeFile_error h (documentTarget h s f) of
                   Some e \<Rightarrow> Inl e
                 | None \<Rightarrow> Inr ())))"
  by (simp add: copyFileToRepo_def Let_def mkdir_def writeFile_def documentTarget_def
      split: option.splits)

lemma copyFileToRepo_relative:
  "\<not> isAbsolute h (gitRepoPath s) \<Longrightarrow>
     copyFileToRepo h s v f w = (Inl ''Git repository path must be an absolute path'', w)"
  by (simp add: copyFileToRepo_def)

lemma copyReferencedAssets_trace:
  "prefix (trace w) (trace (copyReferencedAssets h s v content f w))"
  using copyReferencedAssets_shift [of h s v content f w empty_world] by simp

lemma copyFileToRepo_written:
  assumes "fst (copyFileToRepo h s v f w) = Inr ()"
  shows "WriteFile (documentTarget h s f) (Utf8 (read v f))
           \<in> set (emitted w (snd (copyFileToRepo h s v f w)))"
proof -
  let ?dir = "resolve h (gitRepoPath s) (publishFolder s)"
  let ?e = "WriteFile (documentTarget h s f) (Utf8 (read v f))"
  from assms have a: "isAbsolute h (gitRepoPath s)" and m: "mkdir_error h ?dir = None"
    and x: "writeFile_error h (documentTarget h s f) = None"
    by (auto simp: copyFileToRepo_result split: if_splits option.splits)
  let ?w2 = "snd (writeFile h (documentTarget h s f) (Utf8 (read v f)) (snd (mkdir h ?dir w)))"
  from a m x have c: "snd (copyFileToRepo h s v f w)
      = copyReferencedAssets h s v (read v f) f ?w2"
    by (simp add: copyFileToRepo_def Let_def mkdir_def writeFile_def documentTarget_def
        processContent_def)
  have t: "trace ?w2 = trace w @ [Mkdir ?dir, ?e]"
    by (simp add: writeFile_trace mkdir_trace)
  from copyReferencedAssets_trace [of ?w2 h s v "read v f" f]
  obtain T where "trace (copyReferencedAssets h s v (read v f) f ?w2) = trace ?w2 @ T"
    by (auto simp: prefix_def)
  with t c show ?thesis by (simp add: emitted_def)
qed

lemma copyFilesToRepo_append:
  "copyFilesToRepo h s v (xs @ ys) w =
     (case copyFilesToRepo h s v xs w of
        (Inl e, w1) \<Rightarrow> (Inl e, w1)
      | (Inr u, w1) \<Rightarrow> copyFilesToRepo h s v ys w1)"
proof (induction xs arbitrary: w)
  case Nil
  show ?case by simp
next
  case (Cons x xs)
  show ?case
  proof (cases "copyFileToRepo h s v x w")
    case (Pair r w1)
    then show ?thesis by (cases r) (simp_all add: Cons.IH)
  qed
qed

lemma copyFileToRepo_prefix:
  "prefix (trace w) (trace (snd (copyFileToRepo h s v f w)))"
  using copyFileToRepo_from_empty [of h s v f w] by (simp add: apsnd_def map_prod_def split_beta)

lemma copyFilesToRepo_prefix:
  "prefix (trace w) (trace (snd (copyFilesToRepo h s v fs w)))"
  using copyFilesToRepo_from_empty [of h s v fs w] by (simp add: apsnd_def map_prod_def split_beta)

lemma emitted_append:
  "prefix (trace a) (trace b) \<Longrightarrow> prefix (trace b) (trace c) \<Longrightarrow>
     emitted a c = emitted a b @ emitted b c"
  by (auto simp: emitted_def prefix_def)

lemma copyFilesToRepo_written:
  assumes "fst (copyFilesToRepo h s v fs w) = Inr ()" and "g \<in> set fs"
  shows "WriteFile (documentTarget h s g) (Utf8 (read v g))
           \<in> set (emitted w (snd (copyFilesToRepo h s v fs w)))"
  using assms
proof (induction fs arbitrary: w)
  case Nil
  then show ?case by simp
next
  case (Cons f fs)
  obtain r w1 where c: "copyFileToRepo h s v f w = (r, w1)" by (cases "copyFileToRepo h s v f w")
  with Cons.prems(1) have r: "r = Inr ()" by (cases r) auto
  with c Cons.prems(1) have rest: "fst (copyFilesToRepo h s v fs w1) = Inr ()" by simp
  let ?w2 = "snd (copyFilesToRepo h s v fs w1)"
  from c r have w2: "snd (copyFilesToRepo h s v (f # fs) w) = ?w2" by simp
  have p1: "prefix (trace w) (trace w1)"
    using copyFileToRepo_prefix [of w h s v f] c by simp
  have p2: "prefix (trace w1) (trace ?w2)" by (rule copyFilesToRepo_prefix)
  have e: "emitted w ?w2 = emitted w w1 @ emitted w1 ?w2"
    using p1 p2 by (rule emitted_append)
  show ?case
  proof (cases "g = f")
    case True
    from c r have "fst (copyFileToRepo h s v f w) = Inr ()" by simp
    then have "WriteFile (documentTarget h s f) (Utf8 (read v f))
           \<in> set (emitted w (snd (copyFileToRepo h s v f w)))"
      by (rule copyFileToRepo_written)
    with c True e w2 show ?thesis by simp
  next
    case False
    with Cons.prems(2) have "g \<in> set fs" by simp
    with Cons.IH [OF rest] e w2 show ?thesis by simp
  qed
qed

section \<open>The shape of a batch run\<close>

lemma commitChanges_emitted:
  "emitted w (snd (commitChanges h s w)) = [Exec (statusCommand s)]
   \<or> emitted w (snd (commitChanges h s w))
       = [Exec (statusCommand s),
          Exec (gitCommands s (replace_first (commitMessage s) ''{timestamp}'' (toISOString h)))]"
  by (simp add: commitChanges_def commit_catch_def emit_def emitted_def Let_def
      split: sum.splits)

lemma commitChanges_prefix: "prefix (trace w) (trace (snd (commitChanges h s w)))"
  by (simp add: commitChanges_def commit_catch_def emit_def Let_def split: sum.splits)

lemma emit_emitted: "prefix (trace w) (trace w') \<Longrightarrow> emitted w (emit e w') = emitted w w' @ [e]"
  by (auto simp: emitted_def emit_def prefix_def)

lemma publish_catch_emitted:
  "prefix (trace w) (trace w') \<Longrightarrow>
     emitted w (publish_catch e w')
       = emitted w w' @ [Notice (ErrorPublishingNotes e), ConsoleError ''Publish error:'' e]"
  by (auto simp: emitted_def emit_def publish_catch_def prefix_def)

lemma emit_files [simp]:
  "files (emit e w) = files w" "dirs (emit e w) = dirs w" "committed (emit e w) = committed w"
  "trace (emit e w) = trace w @ [e]"
  by (simp_all add: emit_def)

lemma publish_catch_files [simp]:
  "files (publish_catch e w) = files w" "dirs (publish_catch e w) = dirs w"
  "committed (publish_catch e w) = committed w"
  by (simp_all add: publish_catch_def)

text \<open>
  A batch run with a repository path and at least one publishable document goes one of
  five ways: the mirroring throws; it completes with auto-commit off; or it completes
  and the commit throws, commits, or finds nothing to commit.
\<close>

lemma publishAllNotes_cases:
  fixes h :: host and s :: GeneralPublishSettings and v :: vault and w :: world
  assumes "gitRepoPath s \<noteq> []" and "getPublishableFiles v \<noteq> []"
  defines "w1 \<equiv> emit (Notice (Publishing (length (getPublishableFiles v)))) w"
  defines "m \<equiv> copyFilesToRepo h s v (getPublishableFiles v) w1"
  obtains
    (mirror_failed) e where "fst m = Inl e"
      and "publishAllNotes h s v w = publish_catch e (snd m)"
  | (no_commit) "fst m = Inr ()" and "\<not> autoCommit s"
      and "publishAllNotes h s v w
             = emit (Notice (SuccessfullyPublished (length (getPublishableFiles v)))) (snd m)"
  | (commit_failed) e where "fst m = Inr ()" and "autoCommit s"
      and "fst (commitChanges h s (snd m)) = Inl e"
      and "publishAllNotes h s v w = publish_catch e (snd (commitChanges h s (snd m)))"
  | (made_commit) "fst m = Inr ()" and "autoCommit s"
      and "fst (commitChanges h s (snd m)) = Inr True"
      and "publishAllNotes h s v w
             = emit (Notice (SuccessfullyPublished (length (getPublishableFiles v))))
                 (snd (commitChanges h s (snd m)))"
  | (no_changes) "fst m = Inr ()" and "autoCommit s"
      and "fst (commitChanges h s (snd m)) = Inr False"
      and "publishAllNotes h s v w
             = emit (Notice (CopiedNoChanges (length (getPublishableFiles v))))
                 (snd (commitChanges h s (snd m)))"
proof -
  obtain r w2 where mm: "m = (r, w2)" by (cases m)
  show ?thesis
  proof (cases r)
    case (Inl e)
    with mm assms(1,2) have "publishAllNotes h s v w = publish_catch e (snd m)"
      by (simp add: publishAllNotes_def Let_def m_def [symmetric] w1_def [symmetric])
    with Inl mm mirror_failed show ?thesis by simp
  next
    case (Inr u)
    then have r: "fst m = Inr ()" using mm by simp
    show ?thesis
    proof (cases "autoCommit s")
      case False
      with Inr mm assms(1,2) have "publishAllNotes h s v w
             = emit (Notice (SuccessfullyPublished (length (getPublishableFiles v)))) (snd m)"
        by (simp add: publishAllNotes_def Let_def m_def [symmetric] w1_def [symmetric])
      with r False no_commit show ?thesis by simp
    next
      case True
      obtain rc w3 where cc: "commitChanges h s w2 = (rc, w3)" by (cases "commitChanges h s w2")
      show ?thesis
      proof (cases rc)
        case (Inl e)
        with Inr mm cc True assms(1,2)
        have "publishAllNotes h s v w = publish_catch e (snd (commitChanges h s (snd m)))"
          by (simp add: publishAllNotes_def Let_def m_def [symmetric] w1_def [symmetric])
        with r True Inl cc mm commit_failed show ?thesis by simp
      next
        case (Inr b)
        show ?thesis
        proof (cases b)
          case True
          with \<open>r = Inr u\<close> Inr mm cc \<open>autoCommit s\<close> assms(1,2)
          have "publishAllNotes h s v w
             = emit (Notice (SuccessfullyPublished (length (getPublishableFiles v))))
                 (snd (commitChanges h s (snd m)))"
            by (simp add: publishAllNotes_def Let_def m_def [symmetric] w1_def [symmetric])
          with r \<open>autoCommit s\<close> Inr True cc mm made_commit show ?thesis by simp
        next
          case False
          with \<open>r = Inr u\<close> Inr mm cc \<open>autoCommit s\<close> assms(1,2)
          have "publishAllNotes h s v w
             = emit (Notice (CopiedNoChanges (length (getPublishableFiles v))))
                 (snd (commitChanges h s (snd m)))"
            by (simp add: publishAllNotes_def Let_def m_def [symmetric] w1_def [symmetric])
          with r \<open>autoCommit s\<close> Inr False cc mm no_changes show ?thesis by simp
        qed
      qed
    qed
  qed
qed

lemma status_not_commit: "gitCommands s message \<noteq> statusCommand s"
  by (simp add: gitCommands_def statusCommand_def)

lemma mirrored_not_exec: "mirrored h s v fs e \<Longrightarrow> \<not> is_exec e"
  by (cases e) simp_all

lemma publishAllNotes_idle:
  "gitRepoPath s = [] \<Longrightarrow> publishAllNotes h s v w = emit (Notice PleaseConfigure) w"
  "gitRepoPath s \<noteq> [] \<Longrightarrow> getPublishableFiles v = [] \<Longrightarrow>
     publishAllNotes h s v w = emit (Notice NoFilesFound) w"
  by (simp_all add: publishAllNotes_def)

text \<open>
  The calls of a batch run that mirrors: the notice that publishing starts, the calls of
  the mirroring, and a tail that holds no directory creation and no write, at most one
  status command, and a shell command only if auto-commit is on and the mirroring of
  every document has completed.
\<close>

lemma publishAllNotes_emitted:
  fixes h :: host and s :: GeneralPublishSettings and v :: vault and w :: world
  assumes "gitRepoPath s \<noteq> []" and "getPublishableFiles v \<noteq> []"
  defines "w1 \<equiv> emit (Notice (Publishing (length (getPublishableFiles v)))) w"
  defines "m \<equiv> copyFilesToRepo h s v (getPublishableFiles v) w1"
  shows "\<exists>C. emitted w (publishAllNotes h s v w)
               = Notice (Publishing (length (getPublishableFiles v))) # emitted w1 (snd m) @ C
            \<and> (\<forall>e \<in> set C. \<not> is_mirror e)
            \<and> length (filter (\<lambda>e. e = Exec (statusCommand s)) C) \<le> 1
            \<and> length (filter is_exec C) \<le> 2
            \<and> ((\<exists>e \<in> set C. is_exec e) \<longrightarrow> autoCommit s \<and> fst m = Inr ())"
proof -
  let ?n = "length (getPublishableFiles v)"
  have p1: "prefix (trace w) (trace w1)" by (simp add: w1_def)
  have p2: "prefix (trace w1) (trace (snd m))"
    unfolding m_def by (rule copyFilesToRepo_prefix)
  from p1 p2 have p: "prefix (trace w) (trace (snd m))" by (rule prefix_order.trans)
  have e1: "emitted w w1 = [Notice (Publishing ?n)]" by (simp add: w1_def emitted_def)
  have em: "emitted w (snd m) = Notice (Publishing ?n) # emitted w1 (snd m)"
    using emitted_append [OF p1 p2] e1 by simp
  let ?c = "commitChanges h s (snd m)"
  have p3: "prefix (trace (snd m)) (trace (snd ?c))" by (rule commitChanges_prefix)
  from p p3 have pc: "prefix (trace w) (trace (snd ?c))" by (rule prefix_order.trans)
  have ec: "emitted w (snd ?c) = Notice (Publishing ?n) # emitted w1 (snd m) @ emitted (snd m) (snd ?c)"
    using emitted_append [OF p p3] em by simp
  let ?E = "emitted (snd m) (snd ?c)"
  have E: "(\<forall>e \<in> set ?E. \<not> is_mirror e)
      \<and> length (filter (\<lambda>e. e = Exec (statusCommand s)) ?E) \<le> 1
      \<and> length (filter is_exec ?E) \<le> 2"
    using commitChanges_emitted [of "snd m" h s] by (auto simp: status_not_commit)
  from assms(1,2) show ?thesis
  proof (cases rule: publishAllNotes_cases [of s v h w])
    case (mirror_failed e)
    then have "emitted w (publishAllNotes h s v w)
        = Notice (Publishing ?n) # emitted w1 (snd m)
          @ [Notice (ErrorPublishingNotes e), ConsoleError ''Publish error:'' e]"
      using publish_catch_emitted [OF p, of e] em by (simp add: m_def w1_def)
    then show ?thesis by (intro exI [of _ "[Notice (ErrorPublishingNotes e), ConsoleError ''Publish error:'' e]"]) simp
  next
    case no_commit
    then have "emitted w (publishAllNotes h s v w)
        = Notice (Publishing ?n) # emitted w1 (snd m) @ [Notice (SuccessfullyPublished ?n)]"
      using emit_emitted [OF p] em by (simp add: m_def w1_def)
    then show ?thesis by (intro exI [of _ "[Notice (SuccessfullyPublished ?n)]"]) simp
  next
    case (commit_failed e)
    then have "emitted w (publishAllNotes h s v w)
        = Notice (Publishing ?n) # emitted w1 (snd m)
          @ (?E @ [Notice (ErrorPublishingNotes e), ConsoleError ''Publish error:'' e])"
      using publish_catch_emitted [OF pc, of e] ec by (simp add: m_def w1_def)
    moreover from commit_failed have "autoCommit s \<and> fst m = Inr ()" by (simp add: m_def w1_def)
    ultimately show ?thesis using E
      by (intro exI [of _ "?E @ [Notice (ErrorPublishingNotes e), ConsoleError ''Publish error:'' e]"]) simp
  next
    case made_commit
    then have "emitted w (publishAllNotes h s v w)
        = Notice (Publishing ?n) # emitted w1 (snd m) @ (?E @ [Notice (SuccessfullyPublished ?n)])"
      using emit_emitted [OF pc] ec by (simp add: m_def w1_def)
    moreover from made_commit have "autoCommit s \<and> fst m = Inr ()" by (simp add: m_def w1_def)
    ultimately show ?thesis using E
      by (intro exI [of _ "?E @ [Notice (SuccessfullyPublished ?n)]"]) simp
  next
    case no_changes
    then have "emitted w (publishAllNotes h s v w)
        = Notice (Publishing ?n) # emitted w1 (snd m) @ (?E @ [Notice (CopiedNoChanges ?n)])"
      using emit_emitted [OF pc] ec by (simp add: m_def w1_def)
    moreover from no_changes have "autoCommit s \<and> fst m = Inr ()" by (simp add: m_def w1_def)
    ultimately show ?thesis using E
      by (intro exI [of _ "?E @ [Notice (CopiedNoChanges ?n)]"]) simp
  qed
qed

section \<open>What a batch run writes, and when it commits\<close>

lemma copyAssetToRepo_stored:
  "fst (copyAssetToRepo h s v a w) = Inr () \<Longrightarrow>
     files (snd (copyAssetToRepo h s v a w)) (assetTarget h s a) = Some (Buffer (readBinary v a))"
  by (auto simp: copyAssetToRepo_def Let_def mkdir_def writeFile_def assetTarget_def
      split: option.splits)

lemma publishAllNotes_idle_emitted:
  "gitRepoPath s = [] \<or> getPublishableFiles v = [] \<Longrightarrow>
     emitted w (publishAllNotes h s v w)
       = [Notice (if gitRepoPath s = [] then PleaseConfigure else NoFilesFound)]"
  by (cases "gitRepoPath s = []") (simp_all add: publishAllNotes_idle emitted_def)

lemma publishAllNotes_writes:
  assumes "WriteFile target d \<in> set (emitted w (publishAllNotes h s v w))"
  shows "mirrored h s v (getPublishableFiles v) (WriteFile target d)"
proof (cases "gitRepoPath s = [] \<or> getPublishableFiles v = []")
  case True
  with assms show ?thesis by (simp add: publishAllNotes_idle_emitted)
next
  case False
  let ?fs = "getPublishableFiles v"
  let ?w1 = "emit (Notice (Publishing (length ?fs))) w"
  let ?M = "emitted ?w1 (snd (copyFilesToRepo h s v ?fs ?w1))"
  from False obtain C where
    e: "emitted w (publishAllNotes h s v w) = Notice (Publishing (length ?fs)) # ?M @ C"
    and C: "\<forall>e \<in> set C. \<not> is_mirror e"
    using publishAllNotes_emitted [where s = s and v = v and h = h and w = w] by blast
  from C have "WriteFile target d \<notin> set C" by force
  with assms e have "WriteFile target d \<in> set ?M" by simp
  then show ?thesis using copyFilesToRepo_emitted_mirrored by blast
qed

text \<open>
  C6. \<open>processContent\<close> is the identity on the content. Every write a batch run makes
  is the text of a publishable document, as read from the corpus, to that document's
  target path, or the bytes of an asset one of these documents refers to, as read from
  the corpus, to that asset's target path. A document copied without error has been
  written so, and after an asset is copied without error its target holds its bytes.
\<close>

theorem mirror_verbatim:
  "processContent content file = content
   \<and> (\<forall>target d. WriteFile target d \<in> set (emitted w (publishAllNotes h s v w)) \<longrightarrow>
        (\<exists>f \<in> set (getPublishableFiles v). target = documentTarget h s f \<and> d = Utf8 (read v f))
        \<or> (\<exists>f \<in> set (getPublishableFiles v). \<exists>a \<in> set (resolvedAssets v (read v f)).
              target = assetTarget h s a \<and> d = Buffer (readBinary v a)))
   \<and> (fst (copyFileToRepo h s v file w) = Inr () \<longrightarrow>
        WriteFile (documentTarget h s file) (Utf8 (read v file))
          \<in> set (emitted w (snd (copyFileToRepo h s v file w))))
   \<and> (fst (copyAssetToRepo h s v a w) = Inr () \<longrightarrow>
        files (snd (copyAssetToRepo h s v a w)) (assetTarget h s a)
          = Some (Buffer (readBinary v a)))"
proof (intro conjI allI impI)
  show "processContent content file = content" by (simp add: processContent_def)
next
  fix target d
  assume "WriteFile target d \<in> set (emitted w (publishAllNotes h s v w))"
  then have "mirrored h s v (getPublishableFiles v) (WriteFile target d)"
    by (rule publishAllNotes_writes)
  then show "(\<exists>f \<in> set (getPublishableFiles v). target = documentTarget h s f \<and> d = Utf8 (read v f))
        \<or> (\<exists>f \<in> set (getPublishableFiles v). \<exists>a \<in> set (resolvedAssets v (read v f)).
              target = assetTarget h s a \<and> d = Buffer (readBinary v a))"
    by simp
next
  assume "fst (copyFileToRepo h s v file w) = Inr ()"
  then show "WriteFile (documentTarget h s file) (Utf8 (read v file))
          \<in> set (emitted w (snd (copyFileToRepo h s v file w)))"
    by (rule copyFileToRepo_written)
next
  assume "fst (copyAssetToRepo h s v a w) = Inr ()"
  then show "files (snd (copyAssetToRepo h s v a w)) (assetTarget h s a)
          = Some (Buffer (readBinary v a))"
    by (rule copyAssetToRepo_stored)
qed

section \<open>The toggle does not reach the mirror\<close>

lemma copyAssetToRepo_autoCommit:
  "copyAssetToRepo h (s\<lparr>autoCommit := b\<rparr>) v a w = copyAssetToRepo h s v a w"
  by (simp add: copyAssetToRepo_def)

lemma copyOneAsset_autoCommit:
  "copyOneAsset h (s\<lparr>autoCommit := b\<rparr>) v = copyOneAsset h s v"
  by (intro ext) (simp add: copyOneAsset_def copyAssetToRepo_autoCommit split: option.splits)

lemma copyReferencedAssets_autoCommit:
  "copyReferencedAssets h (s\<lparr>autoCommit := b\<rparr>) v content f w
     = copyReferencedAssets h s v content f w"
  by (simp add: copyReferencedAssets_def copyOneAsset_autoCommit)

lemma copyFileToRepo_autoCommit:
  "copyFileToRepo h (s\<lparr>autoCommit := b\<rparr>) v f w = copyFileToRepo h s v f w"
  by (simp add: copyFileToRepo_def Let_def copyReferencedAssets_autoCommit
      split: prod.splits sum.splits)

lemma copyFilesToRepo_autoCommit:
  "copyFilesToRepo h (s\<lparr>autoCommit := b\<rparr>) v fs w = copyFilesToRepo h s v fs w"
  by (induction fs arbitrary: w)
     (simp_all add: copyFileToRepo_autoCommit split: prod.splits sum.splits)

lemma publishAllNotes_mirror_events:
  "filter is_mirror (emitted w (publishAllNotes h s v w))
     = (if gitRepoPath s = [] \<or> getPublishableFiles v = [] then []
        else filter is_mirror
               (emitted (emit (Notice (Publishing (length (getPublishableFiles v)))) w)
                  (snd (copyFilesToRepo h s v (getPublishableFiles v)
                     (emit (Notice (Publishing (length (getPublishableFiles v)))) w)))))"
proof (cases "gitRepoPath s = [] \<or> getPublishableFiles v = []")
  case True
  then show ?thesis by (simp add: publishAllNotes_idle_emitted)
next
  case False
  then obtain C where
    "emitted w (publishAllNotes h s v w)
       = Notice (Publishing (length (getPublishableFiles v)))
         # emitted (emit (Notice (Publishing (length (getPublishableFiles v)))) w)
             (snd (copyFilesToRepo h s v (getPublishableFiles v)
                (emit (Notice (Publishing (length (getPublishableFiles v)))) w))) @ C"
    and "\<forall>e \<in> set C. \<not> is_mirror e"
    using publishAllNotes_emitted [where s = s and v = v and h = h and w = w] by blast
  with False show ?thesis by simp
qed

text \<open>
  C8. In a batch run the status command, with which the commit step starts, is run at
  most once, and at most two shell commands are run in all. No directory is made and no
  file written after the first shell command. A shell command is run only if auto-commit
  is on, and then every publishable document has been written before. With auto-commit
  off the directories made and the files written are those of the run with it on.
\<close>

theorem commit_once_after_mirror:
  "length (filter (\<lambda>e. e = Exec (statusCommand s)) (emitted w (publishAllNotes h s v w))) \<le> 1
   \<and> length (filter is_exec (emitted w (publishAllNotes h s v w))) \<le> 2
   \<and> (\<forall>e \<in> set (dropWhile (\<lambda>e. \<not> is_exec e) (emitted w (publishAllNotes h s v w))).
        \<not> is_mirror e)
   \<and> ((\<exists>e \<in> set (emitted w (publishAllNotes h s v w)). is_exec e) \<longrightarrow>
        autoCommit s
        \<and> (\<forall>f \<in> set (getPublishableFiles v).
              WriteFile (documentTarget h s f) (Utf8 (read v f))
                \<in> set (takeWhile (\<lambda>e. \<not> is_exec e) (emitted w (publishAllNotes h s v w)))))
   \<and> filter is_mirror (emitted w (publishAllNotes h (s\<lparr>autoCommit := False\<rparr>) v w))
       = filter is_mirror (emitted w (publishAllNotes h (s\<lparr>autoCommit := True\<rparr>) v w))"
proof (cases "gitRepoPath s = [] \<or> getPublishableFiles v = []")
  case True
  then have idle: "\<And>s'. gitRepoPath s' = gitRepoPath s \<Longrightarrow>
      emitted w (publishAllNotes h s' v w)
        = [Notice (if gitRepoPath s = [] then PleaseConfigure else NoFilesFound)]"
    using publishAllNotes_idle_emitted [where v = v and w = w and h = h] by auto
  show ?thesis by (simp add: idle)
next
  case False
  let ?fs = "getPublishableFiles v"
  let ?N = "Notice (Publishing (length ?fs))"
  let ?w1 = "emit ?N w"
  let ?m = "copyFilesToRepo h s v ?fs ?w1"
  let ?M = "emitted ?w1 (snd ?m)"
  from False obtain C where
    e: "emitted w (publishAllNotes h s v w) = ?N # ?M @ C"
    and C1: "\<forall>e \<in> set C. \<not> is_mirror e"
    and C2: "length (filter (\<lambda>e. e = Exec (statusCommand s)) C) \<le> 1"
    and C3: "length (filter is_exec C) \<le> 2"
    and C4: "(\<exists>e \<in> set C. is_exec e) \<longrightarrow> autoCommit s \<and> fst ?m = Inr ()"
    using publishAllNotes_emitted [where s = s and v = v and h = h and w = w] by blast
  have M: "\<forall>e \<in> set ?M. \<not> is_exec e"
    using copyFilesToRepo_emitted_mirrored [of ?w1 h s v ?fs] mirrored_not_exec by blast
  then have NM: "\<And>x. x \<in> set (?N # ?M) \<Longrightarrow> \<not> is_exec x" by auto
  have Ms: "filter (\<lambda>e. e = Exec (statusCommand s)) ?M = []"
    using M by (auto simp: filter_empty_conv)
  have Mx: "filter is_exec ?M = []"
    using M by (auto simp: filter_empty_conv)
  have dw: "dropWhile (\<lambda>e. \<not> is_exec e) (?N # ?M @ C) = dropWhile (\<lambda>e. \<not> is_exec e) C"
    using dropWhile_append2 [of "?N # ?M" "\<lambda>e. \<not> is_exec e" C] NM by simp
  have tw: "takeWhile (\<lambda>e. \<not> is_exec e) (?N # ?M @ C)
      = (?N # ?M) @ takeWhile (\<lambda>e. \<not> is_exec e) C"
    using takeWhile_append2 [of "?N # ?M" "\<lambda>e. \<not> is_exec e" C] NM by simp
  have 1: "length (filter (\<lambda>e. e = Exec (statusCommand s)) (emitted w (publishAllNotes h s v w))) \<le> 1"
    using C2 by (simp add: e Ms)
  have 2: "length (filter is_exec (emitted w (publishAllNotes h s v w))) \<le> 2"
    using C3 by (simp add: e Mx)
  have 3: "\<forall>e \<in> set (dropWhile (\<lambda>e. \<not> is_exec e) (emitted w (publishAllNotes h s v w))).
        \<not> is_mirror e"
    using C1 set_dropWhileD unfolding e dw by fast
  have 4: "(\<exists>e \<in> set (emitted w (publishAllNotes h s v w)). is_exec e) \<longrightarrow>
        autoCommit s
        \<and> (\<forall>f \<in> set ?fs.
              WriteFile (documentTarget h s f) (Utf8 (read v f))
                \<in> set (takeWhile (\<lambda>e. \<not> is_exec e) (emitted w (publishAllNotes h s v w))))"
  proof
    assume "\<exists>e \<in> set (emitted w (publishAllNotes h s v w)). is_exec e"
    with M have "\<exists>e \<in> set C. is_exec e" by (auto simp: e)
    with C4 have a: "autoCommit s" and ok: "fst ?m = Inr ()" by simp_all
    have "\<forall>f \<in> set ?fs. WriteFile (documentTarget h s f) (Utf8 (read v f)) \<in> set ?M"
      using copyFilesToRepo_written [OF ok] by blast
    with a show "autoCommit s
        \<and> (\<forall>f \<in> set ?fs.
              WriteFile (documentTarget h s f) (Utf8 (read v f))
                \<in> set (takeWhile (\<lambda>e. \<not> is_exec e) (emitted w (publishAllNotes h s v w))))"
      unfolding e tw by simp
  qed
  have 5: "filter is_mirror (emitted w (publishAllNotes h (s\<lparr>autoCommit := False\<rparr>) v w))
       = filter is_mirror (emitted w (publishAllNotes h (s\<lparr>autoCommit := True\<rparr>) v w))"
    by (simp add: publishAllNotes_mirror_events copyFilesToRepo_autoCommit)
  from 1 2 3 4 5 show ?thesis by blast
qed

section \<open>The example run\<close>

lemmas ex_defs =
  ex_vault_def ex_read_def ex_readBinary_def ex_lookup_def ex_settings_def ex_host_def
  ex_exec_def DEFAULT_SETTINGS_def note_a_def note_b_def note_a2_def draft_def plain_def
  pic1_def pic2_def empty_world_def

lemmas text_defs =
  shouldPublishFile_def shouldPublish_def frontmatterMatch_def fm_open_def fm_close_def
  NL_def includes_str_def

lemmas image_defs =
  match_here_def match_embed_def match_image_def match_target_def is_line_terminator_def
  CR_def resolveImage_def last_segment_def

lemmas mirror_defs =
  copyFileToRepo_def copyReferencedAssets_def copyOneAsset_def copyAssetToRepo_def
  mkdir_def writeFile_def emit_def processContent_def Let_def

lemmas commit_defs =
  commitChanges_def commit_catch_def statusCommand_def gitCommands_def trim_def
  is_whitespace_def replace_first_def DQ_def publish_catch_def

lemma copyAssetToRepo_result:
  "fst (copyAssetToRepo h s v a w) =
     (case mkdir_error h (resolve h (gitRepoPath s) (assetsFolder s)) of
        Some e \<Rightarrow> Inl e
      | None \<Rightarrow>
          (case writeFile_error h (assetTarget h s a) of
             Some e \<Rightarrow> Inl e
           | None \<Rightarrow> Inr ()))"
  by (simp add: copyAssetToRepo_def Let_def mkdir_def writeFile_def assetTarget_def
      split: option.splits)

lemma ex_publishable:
  "getPublishableFiles (ex_vault [note_a, note_b] None) = [note_a, note_b]"
  by (simp add: getPublishableFiles_def ex_defs text_defs)

lemma ex_run:
  "publishAllNotes ex_host ex_settings (ex_vault [note_a, note_b] None) empty_world =
     \<lparr>files = [''/repo/content/a.md'' \<mapsto> Utf8 (ex_read note_a),
               ''/repo/assets/pic.png'' \<mapsto> Buffer [1, 2, 3],
               ''/repo/content/b.md'' \<mapsto> Utf8 (ex_read note_b)],
      dirs = {''/repo/content'', ''/repo/assets''},
      committed = [''/repo/content/a.md'' \<mapsto> Utf8 (ex_read note_a),
               ''/repo/assets/pic.png'' \<mapsto> Buffer [1, 2, 3],
               ''/repo/content/b.md'' \<mapsto> Utf8 (ex_read note_b)],
      trace = [Notice (Publishing 2), Mkdir ''/repo/content'',
               WriteFile ''/repo/content/a.md'' (Utf8 (ex_read note_a)),
               Mkdir ''/repo/assets'',
               WriteFile ''/repo/assets/pic.png'' (Buffer [1, 2, 3]),
               Mkdir ''/repo/content'',
               WriteFile ''/repo/content/b.md'' (Utf8 (ex_read note_b)),
               Exec (statusCommand ex_settings),
               Exec (gitCommands ex_settings ''Update published notes - 2025-01-01T00:00:00.000Z''),
               Notice (SuccessfullyPublished 2)]\<rparr>"
  apply (simp add: publishAllNotes_def ex_publishable)
  apply (simp add: mirror_defs image_defs commit_defs ex_defs NL_def is_digit_def)
  apply blast
  done

lemma ex_emitted:
  "emitted empty_world (publishAllNotes ex_host ex_settings (ex_vault [note_a, note_b] None) empty_world)
     = [Notice (Publishing 2), Mkdir ''/repo/content'',
        WriteFile ''/repo/content/a.md'' (Utf8 (ex_read note_a)),
        Mkdir ''/repo/assets'',
        WriteFile ''/repo/assets/pic.png'' (Buffer [1, 2, 3]),
        Mkdir ''/repo/content'',
        WriteFile ''/repo/content/b.md'' (Utf8 (ex_read note_b)),
        Exec (statusCommand ex_settings),
        Exec (gitCommands ex_settings ''Update published notes - 2025-01-01T00:00:00.000Z''),
        Notice (SuccessfullyPublished 2)]"
  by (simp add: ex_run emitted_def) (simp add: empty_world_def)

theorem mirror_verbatim_witness:
  "WriteFile ''/repo/assets/pic.png'' (Buffer [1, 2, 3])
     \<in> set (emitted empty_world
          (publishAllNotes ex_host ex_settings (ex_vault [note_a, note_b] None) empty_world))
   \<and> ((\<exists>f \<in> set (getPublishableFiles (ex_vault [note_a, note_b] None)).
          ''/repo/assets/pic.png'' = documentTarget ex_host ex_settings f
          \<and> Buffer [1, 2, 3] = Utf8 (read (ex_vault [note_a, note_b] None) f))
        \<or> (\<exists>f \<in> set (getPublishableFiles (ex_vault [note_a, note_b] None)).
            \<exists>a \<in> set (resolvedAssets (ex_vault [note_a, note_b] None)
                        (read (ex_vault [note_a, note_b] None) f)).
              ''/repo/assets/pic.png'' = assetTarget ex_host ex_settings a
              \<and> Buffer [1, 2, 3] = Buffer (readBinary (ex_vault [note_a, note_b] None) a)))
   \<and> fst (copyFileToRepo ex_host ex_settings (ex_vault [note_a, note_b] None) note_b empty_world)
       = Inr ()
   \<and> WriteFile ''/repo/content/b.md'' (Utf8 (ex_read note_b))
       \<in> set (emitted empty_world
            (snd (copyFileToRepo ex_host ex_settings (ex_vault [note_a, note_b] None) note_b
               empty_world)))
   \<and> fst (copyAssetToRepo ex_host ex_settings (ex_vault [note_a, note_b] None) pic1 empty_world)
       = Inr ()
   \<and> files (snd (copyAssetToRepo ex_host ex_settings (ex_vault [note_a, note_b] None) pic1
               empty_world)) ''/repo/assets/pic.png''
       = Some (Buffer [1, 2, 3])"
proof -
  let ?v = "ex_vault [note_a, note_b] None"
  note t = mirror_verbatim [of "ex_read note_b" note_b empty_world ex_host ex_settings ?v pic1]
  have 1: "WriteFile ''/repo/assets/pic.png'' (Buffer [1, 2, 3])
     \<in> set (emitted empty_world (publishAllNotes ex_host ex_settings ?v empty_world))"
    by (simp add: ex_emitted)
  have 3: "fst (copyFileToRepo ex_host ex_settings ?v note_b empty_world) = Inr ()"
    by (simp add: copyFileToRepo_result documentTarget_def ex_host_def ex_settings_def)
  have 5: "fst (copyAssetToRepo ex_host ex_settings ?v pic1 empty_world) = Inr ()"
    by (simp add: copyAssetToRepo_result assetTarget_def ex_host_def ex_settings_def)
  have d: "documentTarget ex_host ex_settings note_b = ''/repo/content/b.md''"
    "assetTarget ex_host ex_settings pic1 = ''/repo/assets/pic.png''"
    "read ?v note_b = ex_read note_b" "readBinary ?v pic1 = [1, 2, 3]"
    by (simp_all add: documentTarget_def assetTarget_def ex_defs)
  from t 1 3 5 show ?thesis unfolding d by blast
qed

theorem commit_once_after_mirror_witness:
  "(\<exists>e \<in> set (emitted empty_world
        (publishAllNotes ex_host ex_settings (ex_vault [note_a, note_b] None) empty_world)).
      is_exec e)
   \<and> autoCommit ex_settings
   \<and> WriteFile ''/repo/content/b.md'' (Utf8 (ex_read note_b))
       \<in> set (takeWhile (\<lambda>e. \<not> is_exec e)
            (emitted empty_world
               (publishAllNotes ex_host ex_settings (ex_vault [note_a, note_b] None) empty_world)))
   \<and> length (filter (\<lambda>e. e = Exec (statusCommand ex_settings))
        (emitted empty_world
           (publishAllNotes ex_host ex_settings (ex_vault [note_a, note_b] None) empty_world)))
       \<le> 1"
proof -
  let ?v = "ex_vault [note_a, note_b] None"
  let ?E = "emitted empty_world (publishAllNotes ex_host ex_settings ?v empty_world)"
  note t = commit_once_after_mirror [of ex_settings empty_world ex_host ?v]
  have x: "\<exists>e \<in> set ?E. is_exec e" by (simp add: ex_emitted)
  have m: "note_b \<in> set (getPublishableFiles ?v)" by (simp add: ex_publishable)
  have d: "documentTarget ex_host ex_settings note_b = ''/repo/content/b.md''"
    "read ?v note_b = ex_read note_b"
    by (simp_all add: documentTarget_def ex_defs)
  from t x have "autoCommit ex_settings
      \<and> (\<forall>f \<in> set (getPublishableFiles ?v).
            WriteFile (documentTarget ex_host ex_settings f) (Utf8 (read ?v f))
              \<in> set (takeWhile (\<lambda>e. \<not> is_exec e) ?E))" by blast
  with m have "autoCommit ex_settings
      \<and> WriteFile (documentTarget ex_host ex_settings note_b) (Utf8 (read ?v note_b))
              \<in> set (takeWhile (\<lambda>e. \<not> is_exec e) ?E)" by blast
  with t x show ?thesis unfolding d by blast
qed

section \<open>Targets and overwriting\<close>

lemma copyAssetToRepo_other:
  "p \<noteq> assetTarget h s a \<Longrightarrow> files (snd (copyAssetToRepo h s v a w)) p = files w p"
  by (simp add: copyAssetToRepo_def Let_def mkdir_def writeFile_def assetTarget_def emit_def
      split: option.splits)

lemma copyOneAsset_other:
  assumes "\<And>a. resolveImage v n = Some a \<Longrightarrow> p \<noteq> assetTarget h s a"
  shows "files (copyOneAsset h s v n w) p = files w p"
proof (cases "resolveImage v n")
  case None
  then show ?thesis by (simp add: copyOneAsset_def)
next
  case (Some a)
  with assms have "files (snd (copyAssetToRepo h s v a w)) p = files w p"
    by (simp add: copyAssetToRepo_other)
  with Some show ?thesis
    by (cases "copyAssetToRepo h s v a w"; cases "fst (copyAssetToRepo h s v a w)")
       (simp_all add: copyOneAsset_def)
qed

lemma fold_copyOneAsset_other:
  "p \<notin> assetTarget h s ` set (List.map_filter (resolveImage v) ns) \<Longrightarrow>
     files (fold (copyOneAsset h s v) ns w) p = files w p"
proof (induction ns arbitrary: w)
  case Nil
  show ?case by simp
next
  case (Cons n ns)
  from Cons.prems have 1: "\<And>a. resolveImage v n = Some a \<Longrightarrow> p \<noteq> assetTarget h s a"
    by auto
  from Cons.prems have 2: "p \<notin> assetTarget h s ` set (List.map_filter (resolveImage v) ns)"
    by (auto split: option.splits)
  from Cons.IH [OF 2] copyOneAsset_other [of v n p h s, OF 1] show ?case by simp
qed

lemma copyReferencedAssets_other:
  "p \<notin> assetTarget h s ` set (resolvedAssets v content) \<Longrightarrow>
     files (copyReferencedAssets h s v content f w) p = files w p"
  by (simp add: copyReferencedAssets_def resolvedAssets_def fold_copyOneAsset_other)

lemma copyFileToRepo_stored:
  assumes "fst (copyFileToRepo h s v f w) = Inr ()"
    and "documentTarget h s f \<notin> assetTarget h s ` set (resolvedAssets v (read v f))"
  shows "files (snd (copyFileToRepo h s v f w)) (documentTarget h s f) = Some (Utf8 (read v f))"
proof -
  let ?dir = "resolve h (gitRepoPath s) (publishFolder s)"
  from assms(1) have a: "isAbsolute h (gitRepoPath s)" and m: "mkdir_error h ?dir = None"
    and x: "writeFile_error h (documentTarget h s f) = None"
    by (auto simp: copyFileToRepo_result split: if_splits option.splits)
  let ?w2 = "snd (writeFile h (documentTarget h s f) (Utf8 (read v f)) (snd (mkdir h ?dir w)))"
  from a m x have c: "snd (copyFileToRepo h s v f w)
      = copyReferencedAssets h s v (read v f) f ?w2"
    by (simp add: copyFileToRepo_def Let_def mkdir_def writeFile_def documentTarget_def
        processContent_def)
  from x have "files ?w2 (documentTarget h s f) = Some (Utf8 (read v f))"
    by (simp add: writeFile_def)
  with assms(2) c show ?thesis by (simp add: copyReferencedAssets_other)
qed

text \<open>
  C10. Two files of the same filename have the same document target and the same asset
  target, whatever their folders. When two such documents are mirrored one after the
  other, both are written to that target, and it holds the text of the later one (as
  long as no asset of the later document is written to the same path). When two such
  assets are copied one after the other, the target holds the bytes of the later one.
\<close>

theorem same_name_same_target:
  "(name f1 = name f2 \<longrightarrow>
      documentTarget h s f1 = documentTarget h s f2 \<and> assetTarget h s f1 = assetTarget h s f2)
   \<and> (name f1 = name f2 \<and> fst (copyFilesToRepo h s v [f1, f2] w) = Inr ()
       \<and> documentTarget h s f2 \<notin> assetTarget h s ` set (resolvedAssets v (read v f2)) \<longrightarrow>
      WriteFile (documentTarget h s f1) (Utf8 (read v f1))
        \<in> set (emitted w (snd (copyFilesToRepo h s v [f1, f2] w)))
      \<and> WriteFile (documentTarget h s f1) (Utf8 (read v f2))
        \<in> set (emitted w (snd (copyFilesToRepo h s v [f1, f2] w)))
      \<and> files (snd (copyFilesToRepo h s v [f1, f2] w)) (documentTarget h s f1)
        = Some (Utf8 (read v f2)))
   \<and> (name f1 = name f2
       \<and> fst (copyAssetToRepo h s v f2 (snd (copyAssetToRepo h s v f1 w))) = Inr () \<longrightarrow>
      files (snd (copyAssetToRepo h s v f2 (snd (copyAssetToRepo h s v f1 w))))
        (assetTarget h s f1) = Some (Buffer (readBinary v f2)))"
proof (intro conjI impI)
  assume "name f1 = name f2"
  then show "documentTarget h s f1 = documentTarget h s f2"
    and "assetTarget h s f1 = assetTarget h s f2"
    by (simp_all add: documentTarget_def assetTarget_def)
next
  assume a: "name f1 = name f2 \<and> fst (copyFilesToRepo h s v [f1, f2] w) = Inr ()
       \<and> documentTarget h s f2 \<notin> assetTarget h s ` set (resolvedAssets v (read v f2))"
  then have t: "documentTarget h s f1 = documentTarget h s f2"
    by (simp add: documentTarget_def)
  from a have ok: "fst (copyFilesToRepo h s v [f1, f2] w) = Inr ()" by simp
  show "WriteFile (documentTarget h s f1) (Utf8 (read v f1))
        \<in> set (emitted w (snd (copyFilesToRepo h s v [f1, f2] w)))"
    using copyFilesToRepo_written [OF ok, of f1] by simp
  show "WriteFile (documentTarget h s f1) (Utf8 (read v f2))
        \<in> set (emitted w (snd (copyFilesToRepo h s v [f1, f2] w)))"
    using copyFilesToRepo_written [OF ok, of f2] t by simp
  obtain r1 w1 where c1: "copyFileToRepo h s v f1 w = (r1, w1)"
    by (cases "copyFileToRepo h s v f1 w")
  with ok have r1: "r1 = Inr ()" by (cases r1) auto
  obtain r2 w2 where c2: "copyFileToRepo h s v f2 w1 = (r2, w2)"
    by (cases "copyFileToRepo h s v f2 w1")
  with ok c1 r1 have r2: "r2 = Inr ()" by (cases r2) auto
  from c1 r1 c2 r2 have e: "snd (copyFilesToRepo h s v [f1, f2] w) = w2" by simp
  from c2 r2 a have "files (snd (copyFileToRepo h s v f2 w1)) (documentTarget h s f2)
      = Some (Utf8 (read v f2))"
    by (intro copyFileToRepo_stored) simp_all
  with c2 e t show "files (snd (copyFilesToRepo h s v [f1, f2] w)) (documentTarget h s f1)
        = Some (Utf8 (read v f2))" by simp
next
  assume a: "name f1 = name f2
       \<and> fst (copyAssetToRepo h s v f2 (snd (copyAssetToRepo h s v f1 w))) = Inr ()"
  then have "assetTarget h s f1 = assetTarget h s f2" by (simp add: assetTarget_def)
  with a copyAssetToRepo_stored [of h s v f2 "snd (copyAssetToRepo h s v f1 w)"]
  show "files (snd (copyAssetToRepo h s v f2 (snd (copyAssetToRepo h s v f1 w))))
        (assetTarget h s f1) = Some (Buffer (readBinary v f2))" by simp
qed

lemma copyFilesToRepo_result:
  "fst (copyFilesToRepo h s v fs w) = Inr () \<longleftrightarrow>
     (\<forall>f \<in> set fs. fst (copyFileToRepo h s v f empty_world) = Inr ())"
proof (induction fs arbitrary: w)
  case Nil
  show ?case by simp
next
  case (Cons f fs)
  obtain r w1 where c: "copyFileToRepo h s v f w = (r, w1)" by (cases "copyFileToRepo h s v f w")
  have "fst (copyFileToRepo h s v f w) = fst (copyFileToRepo h s v f empty_world)"
    by (simp add: copyFileToRepo_result)
  with c have r: "r = fst (copyFileToRepo h s v f empty_world)" by simp
  show ?case
  proof (cases r)
    case (Inl e)
    with c have "fst (copyFilesToRepo h s v (f # fs) w) = Inl e" by simp
    moreover from Inl r have "fst (copyFileToRepo h s v f empty_world) \<noteq> Inr ()" by simp
    ultimately show ?thesis by auto
  next
    case (Inr u)
    with c have "fst (copyFilesToRepo h s v (f # fs) w) = fst (copyFilesToRepo h s v fs w1)"
      by simp
    moreover from Inr r have "fst (copyFileToRepo h s v f empty_world) = Inr ()" by simp
    ultimately show ?thesis using Cons.IH [of w1] by simp
  qed
qed

theorem same_name_same_target_witness:
  "name note_a = name note_a2
   \<and> documentTarget ex_host ex_settings note_a = ''/repo/content/a.md''
   \<and> documentTarget ex_host ex_settings note_a2 = ''/repo/content/a.md''
   \<and> files (snd (copyFilesToRepo ex_host ex_settings (ex_vault [note_a, note_a2] None)
               [note_a, note_a2] empty_world)) ''/repo/content/a.md''
       = Some (Utf8 (ex_read note_a2))
   \<and> name pic1 = name pic2
   \<and> files (snd (copyAssetToRepo ex_host ex_settings (ex_vault [note_a, note_a2] None) pic2
        (snd (copyAssetToRepo ex_host ex_settings (ex_vault [note_a, note_a2] None) pic1
           empty_world)))) ''/repo/assets/pic.png''
       = Some (Buffer [4, 5])"
proof -
  let ?v = "ex_vault [note_a, note_a2] None"
  note d = same_name_same_target [of note_a note_a2 ex_host ex_settings ?v empty_world]
  note a = same_name_same_target [of pic1 pic2 ex_host ex_settings ?v empty_world]
  have n: "name note_a = name note_a2" "name pic1 = name pic2"
    by (simp_all add: note_a_def note_a2_def pic1_def pic2_def)
  have t: "documentTarget ex_host ex_settings note_a = ''/repo/content/a.md''"
    "assetTarget ex_host ex_settings pic1 = ''/repo/assets/pic.png''"
    by (simp_all add: documentTarget_def assetTarget_def ex_defs)
  have ok: "fst (copyFilesToRepo ex_host ex_settings ?v [note_a, note_a2] empty_world) = Inr ()"
    by (subst copyFilesToRepo_result)
       (simp add: copyFileToRepo_result documentTarget_def ex_host_def ex_settings_def)
  have na: "documentTarget ex_host ex_settings note_a2
      \<notin> assetTarget ex_host ex_settings ` set (resolvedAssets ?v (read ?v note_a2))"
    by (simp add: resolvedAssets_def ex_defs NL_def image_defs)
  have ok2: "fst (copyAssetToRepo ex_host ex_settings ?v pic2
        (snd (copyAssetToRepo ex_host ex_settings ?v pic1 empty_world))) = Inr ()"
    by (simp add: copyAssetToRepo_result assetTarget_def ex_host_def ex_settings_def)
  have r: "read ?v note_a2 = ex_read note_a2" "readBinary ?v pic2 = [4, 5]"
    by (simp_all add: ex_defs)
  from d n ok na have 1: "documentTarget ex_host ex_settings note_a
      = documentTarget ex_host ex_settings note_a2"
    and 2: "files (snd (copyFilesToRepo ex_host ex_settings ?v [note_a, note_a2] empty_world))
        (documentTarget ex_host ex_settings note_a) = Some (Utf8 (read ?v note_a2))"
    by blast+
  from a n ok2 have 3: "files (snd (copyAssetToRepo ex_host ex_settings ?v pic2
        (snd (copyAssetToRepo ex_host ex_settings ?v pic1 empty_world))))
        (assetTarget ex_host ex_settings pic1) = Some (Buffer (readBinary ?v pic2))"
    by blast
  from 1 2 3 n show ?thesis unfolding t r by simp
qed

section \<open>Write failures\<close>

lemma copyOneAsset_from_empty:
  "copyOneAsset h s v n w = shift w (copyOneAsset h s v n empty_world)"
  using copyOneAsset_shift [of h s v n w empty_world] by simp

lemma fold_copyOneAsset_from_empty:
  "fold (copyOneAsset h s v) ns w = shift w (fold (copyOneAsset h s v) ns empty_world)"
  using fold_copyOneAsset_shift [of h s v ns w empty_world] by simp

lemma copyOneAsset_prefix: "prefix (trace w) (trace (copyOneAsset h s v n w))"
  by (subst copyOneAsset_from_empty) simp

lemma fold_copyOneAsset_prefix: "prefix (trace w) (trace (fold (copyOneAsset h s v) ns w))"
  by (subst fold_copyOneAsset_from_empty) simp

lemma copyAssetToRepo_prefix: "prefix (trace w) (trace (snd (copyAssetToRepo h s v a w)))"
  using copyAssetToRepo_shift [of h s v a w empty_world]
  by (simp add: apsnd_def map_prod_def split_beta)

lemma copyOneAsset_logged:
  assumes "resolveImage v n = Some a" and "fst (copyAssetToRepo h s v a empty_world) = Inl e"
  shows "ConsoleError (''Failed to copy asset '' @ n @ '':'') e
           \<in> set (emitted w (copyOneAsset h s v n w))"
proof -
  obtain r w1 where c: "copyAssetToRepo h s v a w = (r, w1)"
    by (cases "copyAssetToRepo h s v a w")
  have "fst (copyAssetToRepo h s v a w) = fst (copyAssetToRepo h s v a empty_world)"
    by (simp add: copyAssetToRepo_result)
  with c assms(2) have r: "r = Inl e" by simp
  have "prefix (trace w) (trace w1)"
    using copyAssetToRepo_prefix [of w h s v a] c by simp
  with c r assms(1) show ?thesis
    by (auto simp: copyOneAsset_def emitted_def emit_def prefix_def)
qed

lemma fold_copyOneAsset_logged:
  assumes "n \<in> set ns" and "resolveImage v n = Some a"
    and "fst (copyAssetToRepo h s v a empty_world) = Inl e"
  shows "ConsoleError (''Failed to copy asset '' @ n @ '':'') e
           \<in> set (emitted w (fold (copyOneAsset h s v) ns w))"
  using assms(1)
proof (induction ns arbitrary: w)
  case Nil
  then show ?case by simp
next
  case (Cons x ns)
  let ?w1 = "copyOneAsset h s v x w"
  let ?w2 = "fold (copyOneAsset h s v) ns ?w1"
  have e: "emitted w ?w2 = emitted w ?w1 @ emitted ?w1 ?w2"
    by (intro emitted_append copyOneAsset_prefix fold_copyOneAsset_prefix)
  show ?case
  proof (cases "n = x")
    case True
    from assms(2,3) have "ConsoleError (''Failed to copy asset '' @ n @ '':'') e
           \<in> set (emitted w (copyOneAsset h s v n w))"
      by (rule copyOneAsset_logged)
    with True e show ?thesis by simp
  next
    case False
    with Cons.prems have "n \<in> set ns" by simp
    with Cons.IH [of ?w1] e show ?thesis by simp
  qed
qed

lemma copyFileToRepo_logged:
  assumes "fst (copyFileToRepo h s v f w) = Inr ()" and "n \<in> set (imageNames (read v f))"
    and "resolveImage v n = Some a" and "fst (copyAssetToRepo h s v a empty_world) = Inl e"
  shows "ConsoleError (''Failed to copy asset '' @ n @ '':'') e
           \<in> set (emitted w (snd (copyFileToRepo h s v f w)))"
proof -
  let ?dir = "resolve h (gitRepoPath s) (publishFolder s)"
  from assms(1) have a: "isAbsolute h (gitRepoPath s)" and m: "mkdir_error h ?dir = None"
    and x: "writeFile_error h (documentTarget h s f) = None"
    by (auto simp: copyFileToRepo_result split: if_splits option.splits)
  let ?w2 = "snd (writeFile h (documentTarget h s f) (Utf8 (read v f)) (snd (mkdir h ?dir w)))"
  let ?w3 = "fold (copyOneAsset h s v) (imageNames (read v f)) ?w2"
  from a m x have c: "snd (copyFileToRepo h s v f w) = ?w3"
    by (simp add: copyFileToRepo_def Let_def mkdir_def writeFile_def documentTarget_def
        processContent_def copyReferencedAssets_def)
  have p: "prefix (trace w) (trace ?w2)"
    by (simp add: writeFile_trace mkdir_trace)
  have "emitted w ?w3 = emitted w ?w2 @ emitted ?w2 ?w3"
    using p fold_copyOneAsset_prefix by (rule emitted_append)
  moreover have "ConsoleError (''Failed to copy asset '' @ n @ '':'') e \<in> set (emitted ?w2 ?w3)"
    using assms(2-4) by (rule fold_copyOneAsset_logged)
  ultimately show ?thesis using c by simp
qed

lemma copyFilesToRepo_logged:
  assumes "fst (copyFilesToRepo h s v fs w) = Inr ()" and "f \<in> set fs"
    and "n \<in> set (imageNames (read v f))"
    and "resolveImage v n = Some a" and "fst (copyAssetToRepo h s v a empty_world) = Inl e"
  shows "ConsoleError (''Failed to copy asset '' @ n @ '':'') e
           \<in> set (emitted w (snd (copyFilesToRepo h s v fs w)))"
  using assms(1,2)
proof (induction fs arbitrary: w)
  case Nil
  then show ?case by simp
next
  case (Cons g fs)
  obtain r w1 where c: "copyFileToRepo h s v g w = (r, w1)" by (cases "copyFileToRepo h s v g w")
  with Cons.prems(1) have r: "r = Inr ()" by (cases r) auto
  with c Cons.prems(1) have rest: "fst (copyFilesToRepo h s v fs w1) = Inr ()" by simp
  let ?w2 = "snd (copyFilesToRepo h s v fs w1)"
  from c r have w2: "snd (copyFilesToRepo h s v (g # fs) w) = ?w2" by simp
  have p1: "prefix (trace w) (trace w1)"
    using copyFileToRepo_prefix [of w h s v g] c by simp
  have p2: "prefix (trace w1) (trace ?w2)" by (rule copyFilesToRepo_prefix)
  have e: "emitted w ?w2 = emitted w w1 @ emitted w1 ?w2"
    using p1 p2 by (rule emitted_append)
  show ?case
  proof (cases "f = g")
    case True
    from c r have "fst (copyFileToRepo h s v g w) = Inr ()" by simp
    with True assms(3-5) have "ConsoleError (''Failed to copy asset '' @ n @ '':'') e
           \<in> set (emitted w (snd (copyFileToRepo h s v g w)))"
      by (intro copyFileToRepo_logged) simp_all
    with c e w2 show ?thesis by simp
  next
    case False
    with Cons.prems(2) have "f \<in> set fs" by simp
    with Cons.IH [OF rest] e w2 show ?thesis by simp
  qed
qed

lemma copyFilesToRepo_fst:
  "fst (copyFilesToRepo h s v fs w) = fst (copyFilesToRepo h s v fs empty_world)"
  by (subst copyFilesToRepo_from_empty) simp

lemma copyFileToRepo_fst:
  "fst (copyFileToRepo h s v f w) = fst (copyFileToRepo h s v f empty_world)"
  by (simp add: copyFileToRepo_result)

lemma copyFilesToRepo_stops:
  assumes "fst (copyFilesToRepo h s v pre empty_world) = Inr ()"
    and "fst (copyFileToRepo h s v f empty_world) = Inl e"
  shows "copyFilesToRepo h s v (pre @ f # post) w = copyFilesToRepo h s v (pre @ [f]) w"
    and "fst (copyFilesToRepo h s v (pre @ [f]) w) = Inl e"
proof -
  obtain r w1 where c: "copyFilesToRepo h s v pre w = (r, w1)"
    by (cases "copyFilesToRepo h s v pre w")
  with assms(1) copyFilesToRepo_fst [of h s v pre w] have r: "r = Inr ()" by simp
  obtain r2 w2 where c2: "copyFileToRepo h s v f w1 = (r2, w2)"
    by (cases "copyFileToRepo h s v f w1")
  with assms(2) copyFileToRepo_fst [of h s v f w1] have r2: "r2 = Inl e" by simp
  from c r c2 r2 show "copyFilesToRepo h s v (pre @ f # post) w = copyFilesToRepo h s v (pre @ [f]) w"
    by (simp add: copyFilesToRepo_append)
  from c r c2 r2 show "fst (copyFilesToRepo h s v (pre @ [f]) w) = Inl e"
    by (simp add: copyFilesToRepo_append)
qed

text \<open>
  C2, as the code has it. Whether a copy fails does not depend on the state of the file
  system, so failure is stated from the empty world. When the documents before \<open>f\<close> in
  the batch copy without error and the copy of \<open>f\<close> fails (the publish directory cannot
  be made, or \<open>f\<close> cannot be written), the run is what mirroring the documents up to
  \<open>f\<close> leaves, followed by the error notice: no later document is mirrored and no shell
  command is run. When every document of the batch copies without error, every document
  is written, whatever happens to the assets, and each asset whose copy fails is logged
  on the console.
\<close>

theorem write_failures:
  "(gitRepoPath s \<noteq> [] \<and> getPublishableFiles v = pre @ f # post
      \<and> fst (copyFilesToRepo h s v pre empty_world) = Inr ()
      \<and> fst (copyFileToRepo h s v f empty_world) = Inl e
    \<longrightarrow> publishAllNotes h s v w
          = publish_catch e
              (snd (copyFilesToRepo h s v (pre @ [f])
                 (emit (Notice (Publishing (length (pre @ f # post)))) w)))
        \<and> (\<forall>x \<in> set (emitted w (publishAllNotes h s v w)). \<not> is_exec x))
   \<and> (gitRepoPath s \<noteq> []
      \<and> fst (copyFilesToRepo h s v (getPublishableFiles v) empty_world) = Inr ()
    \<longrightarrow> (\<forall>g \<in> set (getPublishableFiles v).
           WriteFile (documentTarget h s g) (Utf8 (read v g))
             \<in> set (emitted w (publishAllNotes h s v w)))
        \<and> (\<forall>g \<in> set (getPublishableFiles v). \<forall>n \<in> set (imageNames (read v g)). \<forall>a e.
             resolveImage v n = Some a \<and> fst (copyAssetToRepo h s v a empty_world) = Inl e
             \<longrightarrow> ConsoleError (''Failed to copy asset '' @ n @ '':'') e
                   \<in> set (emitted w (publishAllNotes h s v w))))"
proof (intro conjI impI)
  assume a: "gitRepoPath s \<noteq> [] \<and> getPublishableFiles v = pre @ f # post
      \<and> fst (copyFilesToRepo h s v pre empty_world) = Inr ()
      \<and> fst (copyFileToRepo h s v f empty_world) = Inl e"
  let ?w1 = "emit (Notice (Publishing (length (pre @ f # post)))) w"
  let ?m = "copyFilesToRepo h s v (pre @ [f]) ?w1"
  from a have st: "copyFilesToRepo h s v (pre @ f # post) ?w1 = ?m"
    by (intro copyFilesToRepo_stops(1)) simp_all
  from a have fl: "fst ?m = Inl e"
    by (intro copyFilesToRepo_stops(2)) simp_all
  obtain r w2 where m: "?m = (r, w2)" by (cases ?m)
  with fl have r: "r = Inl e" by simp
  from a st m r show p: "publishAllNotes h s v w = publish_catch e (snd ?m)"
    by (simp add: publishAllNotes_def)
  have p1: "prefix (trace w) (trace ?w1)" by simp
  have p2: "prefix (trace ?w1) (trace (snd ?m))" by (rule copyFilesToRepo_prefix)
  from p1 p2 have pp: "prefix (trace w) (trace (snd ?m))" by (rule prefix_order.trans)
  have "emitted w (publishAllNotes h s v w)
      = (emitted w ?w1 @ emitted ?w1 (snd ?m))
        @ [Notice (ErrorPublishingNotes e), ConsoleError ''Publish error:'' e]"
    using publish_catch_emitted [OF pp, of e] emitted_append [OF p1 p2] p by simp
  moreover have "emitted w ?w1 = [Notice (Publishing (length (pre @ f # post)))]"
    by (simp add: emitted_def)
  moreover have "\<forall>x \<in> set (emitted ?w1 (snd ?m)). \<not> is_exec x"
    using copyFilesToRepo_emitted_mirrored [of ?w1 h s v "pre @ [f]"] mirrored_not_exec by blast
  ultimately show "\<forall>x \<in> set (emitted w (publishAllNotes h s v w)). \<not> is_exec x"
    by auto
next
  assume a: "gitRepoPath s \<noteq> []
      \<and> fst (copyFilesToRepo h s v (getPublishableFiles v) empty_world) = Inr ()"
  let ?fs = "getPublishableFiles v"
  let ?w1 = "emit (Notice (Publishing (length ?fs))) w"
  let ?m = "copyFilesToRepo h s v ?fs ?w1"
  from a have ok: "fst ?m = Inr ()" using copyFilesToRepo_fst [of h s v ?fs ?w1] by simp
  have sub: "?fs \<noteq> [] \<Longrightarrow> set (emitted ?w1 (snd ?m)) \<subseteq> set (emitted w (publishAllNotes h s v w))"
  proof -
    assume "?fs \<noteq> []"
    with a obtain C where "emitted w (publishAllNotes h s v w)
               = Notice (Publishing (length ?fs)) # emitted ?w1 (snd ?m) @ C"
      using publishAllNotes_emitted [where s = s and v = v and h = h and w = w] by blast
    then show ?thesis by auto
  qed
  show "\<forall>g \<in> set ?fs. WriteFile (documentTarget h s g) (Utf8 (read v g))
             \<in> set (emitted w (publishAllNotes h s v w))"
  proof
    fix g assume g: "g \<in> set ?fs"
    then have "?fs \<noteq> []" by auto
    with sub copyFilesToRepo_written [OF ok g]
    show "WriteFile (documentTarget h s g) (Utf8 (read v g))
             \<in> set (emitted w (publishAllNotes h s v w))" by blast
  qed
  show "\<forall>g \<in> set ?fs. \<forall>n \<in> set (imageNames (read v g)). \<forall>a e.
             resolveImage v n = Some a \<and> fst (copyAssetToRepo h s v a empty_world) = Inl e
             \<longrightarrow> ConsoleError (''Failed to copy asset '' @ n @ '':'') e
                   \<in> set (emitted w (publishAllNotes h s v w))"
  proof (intro ballI allI impI)
    fix g n a e
    assume g: "g \<in> set ?fs" and n: "n \<in> set (imageNames (read v g))"
      and r: "resolveImage v n = Some a \<and> fst (copyAssetToRepo h s v a empty_world) = Inl e"
    from g have "?fs \<noteq> []" by auto
    moreover from r have "ConsoleError (''Failed to copy asset '' @ n @ '':'') e
           \<in> set (emitted ?w1 (snd ?m))"
      using copyFilesToRepo_logged [OF ok g n] by blast
    ultimately show "ConsoleError (''Failed to copy asset '' @ n @ '':'') e
                   \<in> set (emitted w (publishAllNotes h s v w))"
      using sub by blast
  qed
qed

theorem write_failures_witness:
  "publishAllNotes (ex_host_denied ''/repo/content/a.md'') ex_settings
       (ex_vault [note_a, note_b] None) empty_world
     = publish_catch ''EACCES: permission denied''
         (snd (copyFilesToRepo (ex_host_denied ''/repo/content/a.md'') ex_settings
                 (ex_vault [note_a, note_b] None) [note_a]
                 (emit (Notice (Publishing 2)) empty_world)))
   \<and> WriteFile ''/repo/content/b.md'' (Utf8 (ex_read note_b))
       \<in> set (emitted empty_world
            (publishAllNotes (ex_host_denied ''/repo/assets/pic.png'') ex_settings
               (ex_vault [note_a, note_b] None) empty_world))
   \<and> ConsoleError ''Failed to copy asset pic.png:'' ''EACCES: permission denied''
       \<in> set (emitted empty_world
            (publishAllNotes (ex_host_denied ''/repo/assets/pic.png'') ex_settings
               (ex_vault [note_a, note_b] None) empty_world))"
proof -
  let ?v = "ex_vault [note_a, note_b] None"
  let ?h1 = "ex_host_denied ''/repo/content/a.md''"
  let ?h2 = "ex_host_denied ''/repo/assets/pic.png''"
  let ?e = "''EACCES: permission denied''"
  have root: "gitRepoPath ex_settings \<noteq> []" by (simp add: ex_settings_def)
  have fs: "getPublishableFiles ?v = [] @ note_a # [note_b]" by (simp add: ex_publishable)
  have pre: "fst (copyFilesToRepo ?h1 ex_settings ?v [] empty_world) = Inr ()" by simp
  have bad: "fst (copyFileToRepo ?h1 ex_settings ?v note_a empty_world) = Inl ?e"
    by (simp add: copyFileToRepo_result documentTarget_def ex_host_denied_def ex_host_def
        ex_settings_def DEFAULT_SETTINGS_def note_a_def)
  from write_failures [of ex_settings ?v "[]" note_a "[note_b]" ?h1 ?e empty_world]
    root fs pre bad
  have "publishAllNotes ?h1 ex_settings ?v empty_world
     = publish_catch ?e (snd (copyFilesToRepo ?h1 ex_settings ?v ([] @ [note_a])
          (emit (Notice (Publishing (length ([] @ note_a # [note_b])))) empty_world)))"
    by blast
  moreover have "length ([] @ note_a # [note_b]) = 2" by simp
  ultimately have 1: "publishAllNotes ?h1 ex_settings ?v empty_world
     = publish_catch ?e (snd (copyFilesToRepo ?h1 ex_settings ?v [note_a]
          (emit (Notice (Publishing 2)) empty_world)))"
    by (simp only: append_Nil)
  have ok: "fst (copyFilesToRepo ?h2 ex_settings ?v (getPublishableFiles ?v) empty_world) = Inr ()"
    unfolding ex_publishable
    by (subst copyFilesToRepo_result)
       (simp add: copyFileToRepo_result documentTarget_def ex_host_denied_def ex_host_def
          ex_settings_def DEFAULT_SETTINGS_def note_a_def note_b_def)
  have b: "note_b \<in> set (getPublishableFiles ?v)" and a: "note_a \<in> set (getPublishableFiles ?v)"
    by (simp_all add: ex_publishable)
  have n: "''pic.png'' \<in> set (imageNames (read ?v note_a))"
    by (simp add: ex_defs NL_def image_defs)
  have r: "resolveImage ?v ''pic.png'' = Some pic1"
    by (simp add: ex_defs image_defs)
  have f: "fst (copyAssetToRepo ?h2 ex_settings ?v pic1 empty_world) = Inl ?e"
    by (simp add: copyAssetToRepo_result assetTarget_def ex_host_denied_def ex_host_def
        ex_settings_def DEFAULT_SETTINGS_def pic1_def)
  have d: "documentTarget ?h2 ex_settings note_b = ''/repo/content/b.md''"
    "read ?v note_b = ex_read note_b"
    by (simp_all add: documentTarget_def ex_host_denied_def ex_defs)
  note t = write_failures [of ex_settings ?v "[]" note_a "[note_b]" ?h2 ?e empty_world]
  from t root ok b have 2: "WriteFile (documentTarget ?h2 ex_settings note_b) (Utf8 (read ?v note_b))
       \<in> set (emitted empty_world (publishAllNotes ?h2 ex_settings ?v empty_world))"
    by blast
  from t root ok a n r f
  have 3: "ConsoleError (''Failed to copy asset '' @ ''pic.png'' @ '':'') ?e
       \<in> set (emitted empty_world (publishAllNotes ?h2 ex_settings ?v empty_world))"
    by blast
  from 3 have 4: "ConsoleError ''Failed to copy asset pic.png:'' ?e
       \<in> set (emitted empty_world (publishAllNotes ?h2 ex_settings ?v empty_world))"
    by simp
  from 1 2 4 show ?thesis unfolding d by blast
qed

text \<open>
  C2 as stated fails: when the first of two publishable documents cannot be written,
  the run stops there. The second document is never written, and the trace ends with
  the error notice.
\<close>

theorem write_failure_counterexample:
  "getPublishableFiles (ex_vault [note_a, note_b] None) = [note_a, note_b]
   \<and> documentTarget (ex_host_denied ''/repo/content/a.md'') ex_settings note_b
       = ''/repo/content/b.md''
   \<and> files (publishAllNotes (ex_host_denied ''/repo/content/a.md'') ex_settings
              (ex_vault [note_a, note_b] None) empty_world) ''/repo/content/b.md'' = None
   \<and> trace (publishAllNotes (ex_host_denied ''/repo/content/a.md'') ex_settings
              (ex_vault [note_a, note_b] None) empty_world)
       = [Notice (Publishing 2), Mkdir ''/repo/content'',
          WriteFile ''/repo/content/a.md'' (Utf8 (ex_read note_a)),
          Notice (ErrorPublishingNotes ''EACCES: permission denied''),
          ConsoleError ''Publish error:'' ''EACCES: permission denied'']"
  apply (simp add: publishAllNotes_def ex_publishable)
  apply (simp add: mirror_defs commit_defs ex_host_denied_def documentTarget_def ex_defs NL_def)
  done

section \<open>A relative root\<close>

lemma copyFilesToRepo_relative:
  "\<not> isAbsolute h (gitRepoPath s) \<Longrightarrow> fs \<noteq> [] \<Longrightarrow>
     copyFilesToRepo h s v fs w = (Inl ''Git repository path must be an absolute path'', w)"
  by (cases fs) (simp_all add: copyFileToRepo_relative)

lemma publishAllNotes_relative:
  assumes "\<not> isAbsolute h (gitRepoPath s)" and "gitRepoPath s \<noteq> []"
    and "getPublishableFiles v \<noteq> []"
  shows "publishAllNotes h s v w
           = publish_catch ''Git repository path must be an absolute path''
               (emit (Notice (Publishing (length (getPublishableFiles v)))) w)"
  using assms by (simp add: publishAllNotes_def copyFilesToRepo_relative)

lemma current_catch_files [simp]:
  "files (current_catch e w) = files w" "dirs (current_catch e w) = dirs w"
  "committed (current_catch e w) = committed w"
  "trace (current_catch e w) = trace w @ [Notice (ErrorPublishingNote e), ConsoleError ''Publish error:'' e]"
  by (simp_all add: current_catch_def)

lemma publishCurrentNote_relative:
  assumes "\<not> isAbsolute h (gitRepoPath s)"
  shows "files (snd (publishCurrentNote h s v w)) = files w
       \<and> dirs (snd (publishCurrentNote h s v w)) = dirs w
       \<and> committed (snd (publishCurrentNote h s v w)) = committed w
       \<and> (\<forall>e \<in> set (emitted w (snd (publishCurrentNote h s v w))).
             \<not> is_mirror e \<and> \<not> is_exec e)"
  using assms
  by (auto simp: publishCurrentNote_def copyFileToRepo_relative emitted_def Let_def
      split: option.splits)

text \<open>
  C4, as the code has it. With a root that is not absolute, a run makes no directory,
  writes no file and runs no shell command. A batch run shows the error
  \<open>Git repository path must be an absolute path\<close> when the root is not empty and some
  document is publishable; with an empty root it asks for the path to be configured,
  and with no publishable document it reports that none was found. A run on the current
  note leaves the target tree as it was, too.
\<close>

theorem relative_root:
  "\<not> isAbsolute h (gitRepoPath s) \<longrightarrow>
     files (publishAllNotes h s v w) = files w
     \<and> dirs (publishAllNotes h s v w) = dirs w
     \<and> committed (publishAllNotes h s v w) = committed w
     \<and> emitted w (publishAllNotes h s v w)
         = (if gitRepoPath s = [] then [Notice PleaseConfigure]
            else if getPublishableFiles v = [] then [Notice NoFilesFound]
            else [Notice (Publishing (length (getPublishableFiles v))),
                  Notice (ErrorPublishingNotes ''Git repository path must be an absolute path''),
                  ConsoleError ''Publish error:''
                    ''Git repository path must be an absolute path''])
     \<and> files (snd (publishCurrentNote h s v w)) = files w
     \<and> dirs (snd (publishCurrentNote h s v w)) = dirs w
     \<and> committed (snd (publishCurrentNote h s v w)) = committed w
     \<and> (\<forall>e \<in> set (emitted w (snd (publishCurrentNote h s v w))).
           \<not> is_mirror e \<and> \<not> is_exec e)"
proof
  assume r: "\<not> isAbsolute h (gitRepoPath s)"
  have a: "files (publishAllNotes h s v w) = files w
     \<and> dirs (publishAllNotes h s v w) = dirs w
     \<and> committed (publishAllNotes h s v w) = committed w
     \<and> emitted w (publishAllNotes h s v w)
         = (if gitRepoPath s = [] then [Notice PleaseConfigure]
            else if getPublishableFiles v = [] then [Notice NoFilesFound]
            else [Notice (Publishing (length (getPublishableFiles v))),
                  Notice (ErrorPublishingNotes ''Git repository path must be an absolute path''),
                  ConsoleError ''Publish error:''
                    ''Git repository path must be an absolute path''])"
  proof (cases "gitRepoPath s = [] \<or> getPublishableFiles v = []")
    case True
    then show ?thesis
      by (cases "gitRepoPath s = []") (simp_all add: publishAllNotes_idle emitted_def)
  next
    case False
    with r have "publishAllNotes h s v w
           = publish_catch ''Git repository path must be an absolute path''
               (emit (Notice (Publishing (length (getPublishableFiles v)))) w)"
      by (simp add: publishAllNotes_relative)
    with False show ?thesis by (simp add: emitted_def publish_catch_def)
  qed
  from a publishCurrentNote_relative [OF r, of v w]
  show "files (publishAllNotes h s v w) = files w
     \<and> dirs (publishAllNotes h s v w) = dirs w
     \<and> committed (publishAllNotes h s v w) = committed w
     \<and> emitted w (publishAllNotes h s v w)
         = (if gitRepoPath s = [] then [Notice PleaseConfigure]
            else if getPublishableFiles v = [] then [Notice NoFilesFound]
            else [Notice (Publishing (length (getPublishableFiles v))),
                  Notice (ErrorPublishingNotes ''Git repository path must be an absolute path''),
                  ConsoleError ''Publish error:''
                    ''Git repository path must be an absolute path''])
     \<and> files (snd (publishCurrentNote h s v w)) = files w
     \<and> dirs (snd (publishCurrentNote h s v w)) = dirs w
     \<and> committed (snd (publishCurrentNote h s v w)) = committed w
     \<and> (\<forall>e \<in> set (emitted w (snd (publishCurrentNote h s v w))).
           \<not> is_mirror e \<and> \<not> is_exec e)"
    by blast
qed

theorem relative_root_witness:
  "\<not> isAbsolute ex_host (gitRepoPath (ex_settings\<lparr>gitRepoPath := ''repo''\<rparr>))
   \<and> files (publishAllNotes ex_host (ex_settings\<lparr>gitRepoPath := ''repo''\<rparr>)
              (ex_vault [note_a, note_b] None) empty_world) = Map.empty
   \<and> dirs (publishAllNotes ex_host (ex_settings\<lparr>gitRepoPath := ''repo''\<rparr>)
              (ex_vault [note_a, note_b] None) empty_world) = {}
   \<and> emitted empty_world
        (publishAllNotes ex_host (ex_settings\<lparr>gitRepoPath := ''repo''\<rparr>)
           (ex_vault [note_a, note_b] None) empty_world)
       = [Notice (Publishing 2),
          Notice (ErrorPublishingNotes ''Git repository path must be an absolute path''),
          ConsoleError ''Publish error:'' ''Git repository path must be an absolute path'']"
proof -
  let ?s = "ex_settings\<lparr>gitRepoPath := ''repo''\<rparr>"
  let ?v = "ex_vault [note_a, note_b] None"
  have r: "\<not> isAbsolute ex_host (gitRepoPath ?s)" by (simp add: ex_host_def)
  have n: "gitRepoPath ?s \<noteq> []" by simp
  have e: "files empty_world = Map.empty" "dirs empty_world = {}"
    by (simp_all add: empty_world_def)
  from relative_root [of ex_host ?s ?v empty_world] r
  have "files (publishAllNotes ex_host ?s ?v empty_world) = files empty_world
     \<and> dirs (publishAllNotes ex_host ?s ?v empty_world) = dirs empty_world
     \<and> emitted empty_world (publishAllNotes ex_host ?s ?v empty_world)
         = (if gitRepoPath ?s = [] then [Notice PleaseConfigure]
            else if getPublishableFiles ?v = [] then [Notice NoFilesFound]
            else [Notice (Publishing (length (getPublishableFiles ?v))),
                  Notice (ErrorPublishingNotes ''Git repository path must be an absolute path''),
                  ConsoleError ''Publish error:''
                    ''Git repository path must be an absolute path''])"
    by blast
  with r show ?thesis by (simp add: ex_publishable e)
qed

text \<open>
  C4 as stated fails: with a relative root and no publishable document the run reports
  that no files were found, and no configuration error.
\<close>

theorem relative_root_counterexample:
  "\<not> isAbsolute ex_host (gitRepoPath (ex_settings\<lparr>gitRepoPath := ''repo''\<rparr>))
   \<and> getPublishableFiles (ex_vault [draft] None) = []
   \<and> trace (publishAllNotes ex_host (ex_settings\<lparr>gitRepoPath := ''repo''\<rparr>)
              (ex_vault [draft] None) empty_world)
       = [Notice NoFilesFound]"
proof -
  have "getPublishableFiles (ex_vault [draft] None) = []"
    by (simp add: getPublishableFiles_def ex_defs text_defs)
  then show ?thesis
    by (simp add: publishAllNotes_def ex_host_def emit_def empty_world_def)
qed

section \<open>A second run\<close>

lemma mkdir_clock: "mkdir (h\<lparr>toISOString := t\<rparr>) = mkdir h"
  by (intro ext) (simp add: mkdir_def)

lemma writeFile_clock: "writeFile (h\<lparr>toISOString := t\<rparr>) = writeFile h"
  by (intro ext) (simp add: writeFile_def)

lemma copyAssetToRepo_clock:
  "copyAssetToRepo (h\<lparr>toISOString := t\<rparr>) s v a w = copyAssetToRepo h s v a w"
  by (simp add: copyAssetToRepo_def Let_def mkdir_clock writeFile_clock
      split: prod.splits sum.splits)

lemma copyOneAsset_clock:
  "copyOneAsset (h\<lparr>toISOString := t\<rparr>) s v = copyOneAsset h s v"
  by (intro ext) (simp add: copyOneAsset_def copyAssetToRepo_clock split: option.splits)

lemma copyFileToRepo_clock:
  "copyFileToRepo (h\<lparr>toISOString := t\<rparr>) s v f w = copyFileToRepo h s v f w"
  by (simp add: copyFileToRepo_def Let_def copyReferencedAssets_def copyOneAsset_clock
      mkdir_clock writeFile_clock split: prod.splits sum.splits)

lemma copyFilesToRepo_clock:
  "copyFilesToRepo (h\<lparr>toISOString := t\<rparr>) s v fs w = copyFilesToRepo h s v fs w"
  by (induction fs arbitrary: w)
     (simp_all add: copyFileToRepo_clock split: prod.splits sum.splits)

lemma map_add_twice: "(m ++ d) ++ d = m ++ d"
  by (rule ext) (simp add: map_add_def split: option.splits)

lemma commitChanges_True:
  assumes "fst (commitChanges h s w) = Inr True"
  shows "committed (snd (commitChanges h s w)) = files w"
  using assms
  by (auto simp: commitChanges_def commit_catch_def Let_def emit_def
      split: sum.splits if_splits)

lemma commitChanges_clean:
  assumes "exec h (statusCommand s) (files w) (committed w) = Inr out" and "trim out = []"
  shows "commitChanges h s w = (Inr False, emit (Exec (statusCommand s)) w)"
  using assms by (simp add: commitChanges_def)

text \<open>
  With auto-commit on, the notice of success is shown only when every document was
  mirrored and the commit was made.
\<close>

lemma publishAllNotes_success:
  fixes h :: host and s :: GeneralPublishSettings and v :: vault and w :: world
  assumes "autoCommit s"
    and "Notice (SuccessfullyPublished n) \<in> set (emitted w (publishAllNotes h s v w))"
  defines "w1 \<equiv> emit (Notice (Publishing (length (getPublishableFiles v)))) w"
  defines "m \<equiv> copyFilesToRepo h s v (getPublishableFiles v) w1"
  shows "gitRepoPath s \<noteq> [] \<and> getPublishableFiles v \<noteq> []
     \<and> n = length (getPublishableFiles v)
     \<and> fst m = Inr () \<and> fst (commitChanges h s (snd m)) = Inr True
     \<and> publishAllNotes h s v w
         = emit (Notice (SuccessfullyPublished n)) (snd (commitChanges h s (snd m)))"
proof -
  let ?S = "Notice (SuccessfullyPublished n)"
  have active: "\<not> (gitRepoPath s = [] \<or> getPublishableFiles v = [])"
  proof
    assume "gitRepoPath s = [] \<or> getPublishableFiles v = []"
    with assms(2) show False by (simp add: publishAllNotes_idle_emitted split: if_splits)
  qed
  let ?n = "length (getPublishableFiles v)"
  have p1: "prefix (trace w) (trace w1)" by (simp add: w1_def)
  have p2: "prefix (trace w1) (trace (snd m))"
    unfolding m_def by (rule copyFilesToRepo_prefix)
  from p1 p2 have p: "prefix (trace w) (trace (snd m))" by (rule prefix_order.trans)
  have e1: "emitted w w1 = [Notice (Publishing ?n)]" by (simp add: w1_def emitted_def)
  have em: "emitted w (snd m) = Notice (Publishing ?n) # emitted w1 (snd m)"
    using emitted_append [OF p1 p2] e1 by simp
  have M: "?S \<notin> set (emitted w1 (snd m))"
    using copyFilesToRepo_emitted_mirrored [of w1 h s v "getPublishableFiles v"]
    unfolding m_def by force
  then have Mw: "?S \<notin> set (emitted w (snd m))" by (simp add: em)
  let ?c = "commitChanges h s (snd m)"
  have p3: "prefix (trace (snd m)) (trace (snd ?c))" by (rule commitChanges_prefix)
  from p p3 have pc: "prefix (trace w) (trace (snd ?c))" by (rule prefix_order.trans)
  have "\<forall>e \<in> set (emitted (snd m) (snd ?c)). is_exec e"
    using commitChanges_emitted [of "snd m" h s] by auto
  then have E: "?S \<notin> set (emitted (snd m) (snd ?c))" by force
  have Ew: "?S \<notin> set (emitted w (snd ?c))"
    using emitted_append [OF p p3] Mw E by simp
  from active have a1: "gitRepoPath s \<noteq> []" and a2: "getPublishableFiles v \<noteq> []" by simp_all
  from a1 a2 show ?thesis
  proof (cases rule: publishAllNotes_cases [where s = s and v = v and h = h and w = w])
    case (mirror_failed e)
    then have "emitted w (publishAllNotes h s v w)
        = emitted w (snd m) @ [Notice (ErrorPublishingNotes e), ConsoleError ''Publish error:'' e]"
      using publish_catch_emitted [OF p, of e] by (simp add: m_def w1_def)
    with assms(2) Mw show ?thesis by simp
  next
    case no_commit
    with assms(1) show ?thesis by simp
  next
    case (commit_failed e)
    then have "emitted w (publishAllNotes h s v w)
        = emitted w (snd ?c) @ [Notice (ErrorPublishingNotes e), ConsoleError ''Publish error:'' e]"
      using publish_catch_emitted [OF pc, of e] by (simp add: m_def w1_def)
    with assms(2) Ew show ?thesis by simp
  next
    case made_commit
    then have "emitted w (publishAllNotes h s v w)
        = emitted w (snd ?c) @ [Notice (SuccessfullyPublished ?n)]"
      using emit_emitted [OF pc] by (simp add: m_def w1_def)
    with assms(2) Ew have "n = ?n" by simp
    with made_commit active show ?thesis by (simp add: m_def w1_def)
  next
    case no_changes
    then have "emitted w (publishAllNotes h s v w)
        = emitted w (snd ?c) @ [Notice (CopiedNoChanges ?n)]"
      using emit_emitted [OF pc] by (simp add: m_def w1_def)
    with assms(2) Ew show ?thesis by simp
  qed
qed

lemma publishAllNotes_no_changes:
  assumes "gitRepoPath s \<noteq> []" and "getPublishableFiles v \<noteq> []" and "autoCommit s"
    and "copyFilesToRepo h s v (getPublishableFiles v)
           (emit (Notice (Publishing (length (getPublishableFiles v)))) x) = (Inr (), m)"
    and "commitChanges h s m = (Inr False, c)"
  shows "publishAllNotes h s v x
           = emit (Notice (CopiedNoChanges (length (getPublishableFiles v)))) c"
  using assms by (simp add: publishAllNotes_def)

text \<open>
  With auto-commit on, the notice that there was nothing to commit is shown only when
  every document was mirrored and the commit step answered so; the shell commands of
  the run are then those of the commit step.
\<close>

lemma publishAllNotes_copied:
  fixes h :: host and s :: GeneralPublishSettings and v :: vault and w :: world
  assumes "autoCommit s"
    and "Notice (CopiedNoChanges n) \<in> set (emitted w (publishAllNotes h s v w))"
  defines "w1 \<equiv> emit (Notice (Publishing (length (getPublishableFiles v)))) w"
  defines "m \<equiv> copyFilesToRepo h s v (getPublishableFiles v) w1"
  shows "gitRepoPath s \<noteq> [] \<and> getPublishableFiles v \<noteq> []
     \<and> n = length (getPublishableFiles v)
     \<and> fst m = Inr () \<and> fst (commitChanges h s (snd m)) = Inr False
     \<and> publishAllNotes h s v w
         = emit (Notice (CopiedNoChanges n)) (snd (commitChanges h s (snd m)))
     \<and> filter is_exec (emitted w (publishAllNotes h s v w))
         = emitted (snd m) (snd (commitChanges h s (snd m)))"
proof -
  let ?S = "Notice (CopiedNoChanges n)"
  have active: "\<not> (gitRepoPath s = [] \<or> getPublishableFiles v = [])"
  proof
    assume "gitRepoPath s = [] \<or> getPublishableFiles v = []"
    with assms(2) show False by (simp add: publishAllNotes_idle_emitted split: if_splits)
  qed
  let ?n = "length (getPublishableFiles v)"
  have p1: "prefix (trace w) (trace w1)" by (simp add: w1_def)
  have p2: "prefix (trace w1) (trace (snd m))"
    unfolding m_def by (rule copyFilesToRepo_prefix)
  from p1 p2 have p: "prefix (trace w) (trace (snd m))" by (rule prefix_order.trans)
  have e1: "emitted w w1 = [Notice (Publishing ?n)]" by (simp add: w1_def emitted_def)
  have em: "emitted w (snd m) = Notice (Publishing ?n) # emitted w1 (snd m)"
    using emitted_append [OF p1 p2] e1 by simp
  have mir: "\<forall>e \<in> set (emitted w1 (snd m)). mirrored h s v (getPublishableFiles v) e"
    unfolding m_def by (rule copyFilesToRepo_emitted_mirrored)
  then have M: "?S \<notin> set (emitted w1 (snd m))" by force
  then have Mw: "?S \<notin> set (emitted w (snd m))" by (simp add: em)
  from mir have "\<forall>e \<in> set (emitted w1 (snd m)). \<not> is_exec e"
    using mirrored_not_exec by blast
  then have Mx: "filter is_exec (emitted w (snd m)) = []"
    by (auto simp: em filter_empty_conv)
  let ?c = "commitChanges h s (snd m)"
  have p3: "prefix (trace (snd m)) (trace (snd ?c))" by (rule commitChanges_prefix)
  from p p3 have pc: "prefix (trace w) (trace (snd ?c))" by (rule prefix_order.trans)
  have X: "\<forall>e \<in> set (emitted (snd m) (snd ?c)). is_exec e"
    using commitChanges_emitted [of "snd m" h s] by auto
  then have E: "?S \<notin> set (emitted (snd m) (snd ?c))" by force
  have ec: "emitted w (snd ?c) = emitted w (snd m) @ emitted (snd m) (snd ?c)"
    using p p3 by (rule emitted_append)
  have Ew: "?S \<notin> set (emitted w (snd ?c))"
    using ec Mw E by simp
  from X have "filter is_exec (emitted (snd m) (snd ?c)) = emitted (snd m) (snd ?c)"
    by (auto simp: filter_id_conv)
  with Mx ec have Ex: "filter is_exec (emitted w (snd ?c)) = emitted (snd m) (snd ?c)"
    by simp
  from active have a1: "gitRepoPath s \<noteq> []" and a2: "getPublishableFiles v \<noteq> []" by simp_all
  from a1 a2 show ?thesis
  proof (cases rule: publishAllNotes_cases [where s = s and v = v and h = h and w = w])
    case (mirror_failed e)
    then have "emitted w (publishAllNotes h s v w)
        = emitted w (snd m) @ [Notice (ErrorPublishingNotes e), ConsoleError ''Publish error:'' e]"
      using publish_catch_emitted [OF p, of e] by (simp add: m_def w1_def)
    with assms(2) Mw show ?thesis by simp
  next
    case no_commit
    with assms(1) show ?thesis by simp
  next
    case (commit_failed e)
    then have "emitted w (publishAllNotes h s v w)
        = emitted w (snd ?c) @ [Notice (ErrorPublishingNotes e), ConsoleError ''Publish error:'' e]"
      using publish_catch_emitted [OF pc, of e] by (simp add: m_def w1_def)
    with assms(2) Ew show ?thesis by simp
  next
    case made_commit
    then have "emitted w (publishAllNotes h s v w)
        = emitted w (snd ?c) @ [Notice (SuccessfullyPublished ?n)]"
      using emit_emitted [OF pc] by (simp add: m_def w1_def)
    with assms(2) Ew show ?thesis by simp
  next
    case no_changes
    then have e: "emitted w (publishAllNotes h s v w)
        = emitted w (snd ?c) @ [Notice (CopiedNoChanges ?n)]"
      using emit_emitted [OF pc] by (simp add: m_def w1_def)
    with assms(2) Ew have "n = ?n" by simp
    moreover from e Ex have "filter is_exec (emitted w (publishAllNotes h s v w))
         = emitted (snd m) (snd ?c)" by simp
    ultimately show ?thesis using no_changes active by (simp add: m_def w1_def)
  qed
qed

text \<open>
  A commit step that ran the status command only and answered that there were no
  changes does the same on any world with the same files and the same committed tree,
  at any later instant.
\<close>

lemma commitChanges_status_only:
  assumes "emitted w (snd (commitChanges h s w)) = [Exec (statusCommand s)]"
    and "fst (commitChanges h s w) = Inr False"
    and "files w' = files w" and "committed w' = committed w"
  shows "commitChanges (h\<lparr>toISOString := t\<rparr>) s w'
           = (Inr False, emit (Exec (statusCommand s)) w')"
    and "committed (snd (commitChanges h s w)) = committed w"
  using assms
  by (auto simp: commitChanges_def commit_catch_def Let_def emitted_def emit_def
      split: sum.splits if_splits)


text \<open>
  C7. Take a host on which the status command prints nothing but white space whenever
  the working tree is as it was committed, auto-commit on, and a first batch run that
  ended with the notice of success, that is, with a commit made, or with the notice
  that there was nothing to commit after the status command alone. A second run at a
  later instant, on the same corpus, leaves the files, the directories and the committed
  tree as the first run left them; it runs the status command and no other shell
  command; and it ends with the notice that there were no changes to commit.
\<close>

theorem second_run_no_changes:
  assumes "autoCommit s"
    and "\<forall>tree. \<exists>out. exec h (statusCommand s) tree tree = Inr out \<and> trim out = []"
    and "Notice (SuccessfullyPublished n) \<in> set (emitted w (publishAllNotes h s v w))
         \<or> Notice (CopiedNoChanges n) \<in> set (emitted w (publishAllNotes h s v w))
           \<and> filter is_exec (emitted w (publishAllNotes h s v w)) = [Exec (statusCommand s)]"
  shows "files (publishAllNotes (h\<lparr>toISOString := later\<rparr>) s v (publishAllNotes h s v w))
           = files (publishAllNotes h s v w)
       \<and> dirs (publishAllNotes (h\<lparr>toISOString := later\<rparr>) s v (publishAllNotes h s v w))
           = dirs (publishAllNotes h s v w)
       \<and> committed (publishAllNotes (h\<lparr>toISOString := later\<rparr>) s v (publishAllNotes h s v w))
           = committed (publishAllNotes h s v w)
       \<and> filter is_exec
            (emitted (publishAllNotes h s v w)
               (publishAllNotes (h\<lparr>toISOString := later\<rparr>) s v (publishAllNotes h s v w)))
           = [Exec (statusCommand s)]
       \<and> last (trace (publishAllNotes (h\<lparr>toISOString := later\<rparr>) s v (publishAllNotes h s v w)))
           = Notice (CopiedNoChanges n)"
proof -
  let ?fs = "getPublishableFiles v"
  let ?N = "Notice (Publishing (length ?fs))"
  let ?h' = "h\<lparr>toISOString := later\<rparr>"
  let ?R = "publishAllNotes h s v w"
  obtain r d where zero: "copyFilesToRepo h s v ?fs empty_world = (r, d)"
    by (cases "copyFilesToRepo h s v ?fs empty_world")
  have on: "\<And>x. copyFilesToRepo h s v ?fs x = (r, shift x d)"
    using copyFilesToRepo_from_empty [of h s v ?fs] zero by simp
  let ?m = "shift (emit ?N w) d"
  let ?c = "commitChanges h s ?m"
  let ?m2 = "shift (emit ?N ?R) d"
  have cf: "files (snd ?c) = files ?m" and cd: "dirs (snd ?c) = dirs ?m"
    using commitChanges_files [of h s ?m] by simp_all
  have first: "gitRepoPath s \<noteq> [] \<and> ?fs \<noteq> [] \<and> n = length ?fs \<and> r = Inr ()
      \<and> files ?R = files w ++ files d \<and> dirs ?R = dirs w \<union> dirs d
      \<and> commitChanges ?h' s ?m2 = (Inr False, emit (Exec (statusCommand s)) ?m2)"
    using assms(3)
  proof
    assume "Notice (SuccessfullyPublished n) \<in> set (emitted w ?R)"
    with assms(1) have root: "gitRepoPath s \<noteq> []" and some: "?fs \<noteq> []" and n: "n = length ?fs"
      and ok: "r = Inr ()" and made: "fst ?c = Inr True"
      and R: "?R = emit (Notice (SuccessfullyPublished n)) (snd ?c)"
      using publishAllNotes_success [of s n w h v] by (simp_all add: on)
    from made have cc: "committed (snd ?c) = files ?m" by (rule commitChanges_True)
    have Rf: "files ?R = files w ++ files d" by (simp add: R cf)
    have Rd: "dirs ?R = dirs w \<union> dirs d" by (simp add: R cd)
    have Rc: "committed ?R = files w ++ files d" by (simp add: R cc)
    have f2: "files ?m2 = files ?R" by (simp add: Rf map_add_twice)
    have c2: "committed ?m2 = files ?R" by (simp add: Rc Rf)
    from assms(2) obtain out where
      "exec h (statusCommand s) (files ?R) (files ?R) = Inr out" and t: "trim out = []"
      by blast
    then have "exec ?h' (statusCommand s) (files ?m2) (committed ?m2) = Inr out"
      by (simp only: f2 c2) simp
    from this t
    have "commitChanges ?h' s ?m2 = (Inr False, emit (Exec (statusCommand s)) ?m2)"
      by (rule commitChanges_clean)
    with root some n ok Rf Rd show ?thesis by blast
  next
    assume a: "Notice (CopiedNoChanges n) \<in> set (emitted w ?R)
           \<and> filter is_exec (emitted w ?R) = [Exec (statusCommand s)]"
    with assms(1) have root: "gitRepoPath s \<noteq> []" and some: "?fs \<noteq> []" and n: "n = length ?fs"
      and ok: "r = Inr ()" and none: "fst ?c = Inr False"
      and R: "?R = emit (Notice (CopiedNoChanges n)) (snd ?c)"
      and x: "filter is_exec (emitted w ?R) = emitted ?m (snd ?c)"
      using publishAllNotes_copied [of s n w h v] by (simp_all add: on)
    from a x have only: "emitted ?m (snd ?c) = [Exec (statusCommand s)]" by simp
    have Rf: "files ?R = files w ++ files d" by (simp add: R cf)
    have Rd: "dirs ?R = dirs w \<union> dirs d" by (simp add: R cd)
    have Rc: "committed ?R = committed ?m"
      using commitChanges_status_only(2) [OF only none refl refl] by (simp add: R)
    have f2: "files ?m2 = files ?m" by (simp add: Rf map_add_twice)
    have c2: "committed ?m2 = committed ?m" by (simp add: Rc)
    from only none f2 c2
    have "commitChanges ?h' s ?m2 = (Inr False, emit (Exec (statusCommand s)) ?m2)"
      by (rule commitChanges_status_only(1))
    with root some n ok Rf Rd show ?thesis by blast
  qed
  then have root: "gitRepoPath s \<noteq> []" and some: "?fs \<noteq> []" and n: "n = length ?fs"
    and ok: "r = Inr ()" and Rf: "files ?R = files w ++ files d"
    and Rd: "dirs ?R = dirs w \<union> dirs d"
    and C2: "commitChanges ?h' s ?m2 = (Inr False, emit (Exec (statusCommand s)) ?m2)"
    by simp_all
  have m2: "copyFilesToRepo ?h' s v ?fs (emit ?N ?R) = (Inr (), ?m2)"
    by (simp add: copyFilesToRepo_clock on ok)
  have f2: "files ?m2 = files ?R" by (simp add: Rf map_add_twice)
  have d2: "dirs ?m2 = dirs ?R" by (auto simp: Rd)
  let ?R2 = "publishAllNotes ?h' s v ?R"
  have R2: "?R2 = emit (Notice (CopiedNoChanges n)) (emit (Exec (statusCommand s)) ?m2)"
    unfolding n using root some assms(1) m2 C2 by (rule publishAllNotes_no_changes)
  have 1: "files ?R2 = files ?R" by (simp only: R2 emit_files f2)
  have 2: "dirs ?R2 = dirs ?R" by (simp only: R2 emit_files d2)
  have 3: "committed ?R2 = committed ?R" by (simp only: R2 emit_files) simp
  have "\<forall>e \<in> set (trace d). \<not> is_exec e"
    using copyFilesToRepo_emitted_mirrored [of empty_world h s v ?fs] mirrored_not_exec zero
    by (auto simp: emitted_def empty_world_def)
  then have "filter is_exec (trace d) = []" by (auto simp: filter_empty_conv)
  then have 4: "filter is_exec (emitted ?R ?R2) = [Exec (statusCommand s)]"
    by (simp add: R2 emitted_def)
  have 5: "last (trace ?R2) = Notice (CopiedNoChanges n)" by (simp add: R2)
  from 1 2 3 4 5 show ?thesis by blast
qed

theorem second_run_no_changes_witness:
  "files (publishAllNotes (ex_host\<lparr>toISOString := ''2025-01-02T00:00:00.000Z''\<rparr>) ex_settings
            (ex_vault [note_a, note_b] None)
            (publishAllNotes ex_host ex_settings (ex_vault [note_a, note_b] None) empty_world))
     = files (publishAllNotes ex_host ex_settings (ex_vault [note_a, note_b] None) empty_world)
   \<and> committed (publishAllNotes (ex_host\<lparr>toISOString := ''2025-01-02T00:00:00.000Z''\<rparr>)
            ex_settings (ex_vault [note_a, note_b] None)
            (publishAllNotes ex_host ex_settings (ex_vault [note_a, note_b] None) empty_world))
     = committed (publishAllNotes ex_host ex_settings (ex_vault [note_a, note_b] None) empty_world)
   \<and> filter is_exec
        (emitted (publishAllNotes ex_host ex_settings (ex_vault [note_a, note_b] None) empty_world)
           (publishAllNotes (ex_host\<lparr>toISOString := ''2025-01-02T00:00:00.000Z''\<rparr>) ex_settings
              (ex_vault [note_a, note_b] None)
              (publishAllNotes ex_host ex_settings (ex_vault [note_a, note_b] None) empty_world)))
     = [Exec (statusCommand ex_settings)]
   \<and> last (trace (publishAllNotes (ex_host\<lparr>toISOString := ''2025-01-02T00:00:00.000Z''\<rparr>)
            ex_settings (ex_vault [note_a, note_b] None)
            (publishAllNotes ex_host ex_settings (ex_vault [note_a, note_b] None) empty_world)))
     = Notice (CopiedNoChanges 2)"
proof -
  let ?v = "ex_vault [note_a, note_b] None"
  have a: "autoCommit ex_settings" by (simp add: ex_settings_def DEFAULT_SETTINGS_def)
  have c: "\<forall>tree. \<exists>out. exec ex_host (statusCommand ex_settings) tree tree = Inr out
             \<and> trim out = []"
    by (simp add: ex_host_def ex_exec_def trim_def)
  have f: "Notice (SuccessfullyPublished 2)
      \<in> set (emitted empty_world (publishAllNotes ex_host ex_settings ?v empty_world))"
    by (simp add: ex_emitted)
  from f have "Notice (SuccessfullyPublished 2)
        \<in> set (emitted empty_world (publishAllNotes ex_host ex_settings ?v empty_world))
      \<or> Notice (CopiedNoChanges 2)
          \<in> set (emitted empty_world (publishAllNotes ex_host ex_settings ?v empty_world))
        \<and> filter is_exec (emitted empty_world (publishAllNotes ex_host ex_settings ?v empty_world))
          = [Exec (statusCommand ex_settings)]"
    by (rule disjI1)
  from second_run_no_changes [OF a c this, of "''2025-01-02T00:00:00.000Z''"]
  show ?thesis by blast
qed

end
